theory Spec2Isabelle
  imports Complex_Main
begin

section \<open>JavaScript values and exceptions\<close>

text \<open>
  The browser client is written in JavaScript. An exception is a value of \<open>js_error\<close>;
  a call of something that is not a function (a method the receiver does not have, or
  any property of \<open>undefined\<close>) throws \<open>TypeError\<close>. JavaScript numbers are modelled as
  reals: the model has no \<open>NaN\<close>, no infinities and no rounding.
\<close>

datatype js_error = TypeError | SyntaxError | Error string

section \<open>chart.js: the class CostChart\<close>

text \<open>
  The Chart.js object held in \<open>this.chart\<close> is reduced to the two arrays the class
  touches: \<open>chart.data.labels\<close> and \<open>chart.data.datasets[0].data\<close>. JavaScript does
  not fix the type of a label, so it is a type parameter.
\<close>

record 'l cost_chart =
  labels :: "'l list"
  data :: "real list"

record canvas =
  has_2d_context :: bool

text \<open>The constructor throws when \<open>canvas.getContext('2d')\<close> is null.\<close>

definition CostChart_new :: "canvas \<Rightarrow> js_error + 'l cost_chart" where
  "CostChart_new cv =
     (if \<not> has_2d_context cv then Inl (Error ''Canvas 2D context is unavailable'')
      else Inr \<lparr>labels = [], data = []\<rparr>)"

definition add :: "'l \<Rightarrow> real \<Rightarrow> 'l cost_chart \<Rightarrow> 'l cost_chart" where
  "add l v c = c\<lparr>labels := labels c @ [l], data := data c @ [v]\<rparr>"

definition reset :: "'l cost_chart \<Rightarrow> 'l cost_chart" where
  "reset c = c\<lparr>labels := [], data := []\<rparr>"

text \<open>A use of a chart is a sequence of calls of its two methods.\<close>

datatype 'l chart_call = Add 'l real | Reset

fun chart_apply :: "'l chart_call \<Rightarrow> 'l cost_chart \<Rightarrow> 'l cost_chart" where
  "chart_apply (Add l v) c = add l v c"
| "chart_apply Reset c = reset c"

section \<open>costProgressApp.js: the component CostProgress\<close>

text \<open>The computed property \<open>fillPercentage\<close>, from \<open>props.maxCost\<close> and \<open>currentCost.value\<close>.\<close>

definition fillPercentage :: "real \<Rightarrow> real \<Rightarrow> real" where
  "fillPercentage maxCost currentCost =
     (if maxCost > 0 then min 100 ((currentCost / maxCost) * 100) else 0)"

section \<open>config.js, ui.js and flow.js as ws.js sees them\<close>

text \<open>
  \<open>config.js\<close> exports one object with the single property \<open>paths\<close>. \<open>ws.js\<close> reads
  \<open>Config.apiBase\<close>, which that object does not have, inside a template literal, and a
  template literal renders \<open>undefined\<close> as the text \<open>undefined\<close>.
\<close>

definition Config_apiBase :: string where
  "Config_apiBase = ''undefined''"

text \<open>
  \<open>ui.js\<close> exports the object \<open>UI\<close> with the methods listed here. Calling any other
  property of \<open>UI\<close> calls \<open>undefined\<close> and throws \<open>TypeError\<close>; the arguments are
  evaluated first. \<open>ws.js\<close> calls \<open>UI.toggleSpinner\<close>, \<open>UI.appendUL\<close> and \<open>UI.toast\<close>.
  For a method of the list the call returns normally (what it does to the page is
  outside this model).
\<close>

definition UI_methods :: "string list" where
  "UI_methods = [''enableTooltips'', ''showSpinner'', ''hideSpinner'', ''updateCostChart'',
     ''showToast'', ''clearToasts'', ''logout'']"

definition UI_call :: "string \<Rightarrow> js_error option" where
  "UI_call name = (if name \<in> set UI_methods then None else Some TypeError)"

text \<open>
  The page: the elements \<open>buildMain\<close> creates and \<open>ws.js\<close> writes, the nodes of the
  rendered flow diagram (\<open>None\<close> when \<open>#flow-diagram-body\<close> holds no \<open>svg\<close>), the nodes
  that carry the class \<open>activeAgent\<close>, and \<open>window._prevAgentNode\<close>.
\<close>

record page =
  downloadLink_href :: string
  download_section_hidden :: bool
  currentAgent :: string
  currentPhase :: string
  svg :: "string list option"
  activeAgent :: "string set"
  prevAgentNode :: "string option"

text \<open>The page as \<open>buildMain\<close> leaves it, before any diagram is drawn.\<close>

definition buildMain_page :: page where
  "buildMain_page = \<lparr>downloadLink_href = ''#'', download_section_hidden = True,
     currentAgent = ''-'', currentPhase = ''-'', svg = None, activeAgent = {},
     prevAgentNode = None\<rparr>"

definition AGENT_NODE_MAP :: "(string \<times> string) list" where
  "AGENT_NODE_MAP = [(''DB Design'', ''DBD''), (''UI Generation'', ''UI''),
     (''Code Generation'', ''CODE''), (''QA'', ''QA''), (''Security'', ''SEC''),
     (''Patch'', ''PATCH'')]"

text \<open>
  \<open>AGENT_NODE_MAP[agent]\<close> is a property read of an object literal: a key of the
  literal gives its node id, a name that \<open>Object.prototype\<close> defines gives an inherited
  function or object (truthy, and not a valid selector once rendered behind \<open>#\<close>), any
  other name gives \<open>undefined\<close>.
\<close>

definition Object_prototype_keys :: "string list" where
  "Object_prototype_keys = [''constructor'', ''__proto__'', ''hasOwnProperty'',
     ''isPrototypeOf'', ''propertyIsEnumerable'', ''toLocaleString'', ''toString'',
     ''valueOf'', ''__defineGetter__'', ''__defineSetter__'', ''__lookupGetter__'',
     ''__lookupSetter__'']"

datatype node_ref = NoNode | NodeId string | Inherited

definition AGENT_NODE_MAP_get :: "string \<Rightarrow> node_ref" where
  "AGENT_NODE_MAP_get agent =
     (case map_of AGENT_NODE_MAP agent of
        Some i \<Rightarrow> NodeId i
      | None \<Rightarrow> if agent \<in> set Object_prototype_keys then Inherited else NoNode)"

text \<open>
  \<open>Flow.highlight(agent)\<close>: return when the map has no entry or no diagram is drawn;
  take the class off the previous node; look the node up (\<open>querySelector\<close> throws
  \<open>SyntaxError\<close> on an invalid selector); when found, give it the class and remember it.
\<close>

definition highlight :: "string \<Rightarrow> page \<Rightarrow> page \<times> js_error option" where
  "highlight agent p =
     (case AGENT_NODE_MAP_get agent of
        NoNode \<Rightarrow> (p, None)
      | r \<Rightarrow>
         (case svg p of
            None \<Rightarrow> (p, None)
          | Some nodes \<Rightarrow>
             (let p1 = (case prevAgentNode p of
                          None \<Rightarrow> p
                        | Some n \<Rightarrow> p\<lparr>activeAgent := activeAgent p - {n}\<rparr>)
              in case r of
                   NodeId i \<Rightarrow>
                     if i \<in> set nodes
                     then (p1\<lparr>activeAgent := insert i (activeAgent p1),
                              prevAgentNode := Some i\<rparr>, None)
                     else (p1, None)
                 | _ \<Rightarrow> (p1, Some SyntaxError))))"

section \<open>ws.js: the class WSClient\<close>

text \<open>
  A stream event, after \<open>JSON.parse\<close>. A field that is absent (or \<open>null\<close>) is \<open>None\<close>.
  \<open>archive_id\<close> is the serial key of the archive table, the names are texts, the costs
  are numbers. \<open>sequence\<close> and \<open>error\<close> belong to the event shape; \<open>ws.js\<close> reads neither.
\<close>

record out_data =
  cost_used :: "real option"
  cost :: "real option"

record ws_msg =
  sequence :: "nat option"
  step_name :: "string option"
  current_agent :: "string option"
  output_data :: "out_data option"
  from_agent :: "string option"
  to_agent :: "string option"
  archive_id :: "nat option"
  error :: "string option"

text \<open>Truthiness: an absent field, the empty text and the number 0 are falsy.\<close>

definition truthy_str :: "string option \<Rightarrow> bool" where
  "truthy_str v = (case v of None \<Rightarrow> False | Some s \<Rightarrow> s \<noteq> [])"

definition truthy_nat :: "nat option \<Rightarrow> bool" where
  "truthy_nat v = (case v of None \<Rightarrow> False | Some n \<Rightarrow> n \<noteq> 0)"

definition truthy_num :: "real option \<Rightarrow> bool" where
  "truthy_num v = (case v of None \<Rightarrow> False | Some x \<Rightarrow> x \<noteq> 0)"

text \<open>The decimal text of a number, as a template literal renders a non-negative integer.\<close>

fun show_nat :: "nat \<Rightarrow> string" where
  "show_nat n =
     (if n < 10 then [''0123456789'' ! n]
      else show_nat (n div 10) @ [''0123456789'' ! (n mod 10)])"

declare show_nat.simps [simp del]

text \<open>
  \<open>Number(msg.output_data?.cost_used || msg.output_data?.cost)\<close>: the first operand
  when it is truthy, the second otherwise; \<open>None\<close> stands for \<open>NaN\<close>, the number of
  \<open>undefined\<close>.
\<close>

definition cost_of :: "ws_msg \<Rightarrow> real option" where
  "cost_of m =
     (case output_data m of
        None \<Rightarrow> None
      | Some d \<Rightarrow> if truthy_num (cost_used d) then cost_used d else cost d)"

text \<open>
  A method call on the chart reference. \<open>None\<close> is \<open>undefined\<close> (no chart was passed to
  the constructor); a \<open>CostChart\<close> has the methods \<open>add\<close> and \<open>reset\<close> and no other.
\<close>

definition chart_call_method ::
  "string \<Rightarrow> 'l cost_chart option \<Rightarrow> 'l \<Rightarrow> real \<Rightarrow> js_error + 'l cost_chart" where
  "chart_call_method name ch l v =
     (case ch of
        None \<Rightarrow> Inl TypeError
      | Some c \<Rightarrow>
          if name = ''add'' then Inr (add l v c)
          else if name = ''reset'' then Inr (reset c)
          else Inl TypeError)"

datatype ready_state = CONNECTING | OPEN | CLOSED

text \<open>
  The client: the page it writes, \<open>this.chart\<close>, the \<open>retry\<close> argument that the handlers
  of the current socket have captured, the state of that socket, the pending
  \<open>setTimeout\<close> callbacks (each with its delay in milliseconds and the argument it will
  pass to \<open>_connect\<close>), and the number of sockets constructed so far.
\<close>

record wsclient =
  dom :: page
  chart :: "string option cost_chart option"
  retry :: nat
  readyState :: ready_state
  timers :: "(nat \<times> nat) list"
  sockets :: nat

text \<open>\<open>_connect(retry)\<close> constructs a socket, whose handlers capture \<open>retry\<close>.\<close>

definition connect :: "nat \<Rightarrow> wsclient \<Rightarrow> wsclient" where
  "connect r c = c\<lparr>retry := r, readyState := CONNECTING, sockets := sockets c + 1\<rparr>"

text \<open>The constructor: \<open>this.chart = chartRef; this._connect()\<close>, with \<open>retry = 0\<close>.\<close>

definition WSClient_new :: "string option cost_chart option \<Rightarrow> page \<Rightarrow> wsclient" where
  "WSClient_new chartRef p =
     connect 0 \<lparr>dom = p, chart = chartRef, retry = 0, readyState = CLOSED, timers = [],
       sockets = 0\<rparr>"

text \<open>
  \<open>_handle(msg)\<close>. The result is the client afterwards and the exception that left the
  method, if one did. An exception keeps what was written before it. The lists
  \<open>#logList\<close> and \<open>#agentInteractionList\<close> are not in the page record: \<open>ws.js\<close> writes
  to them through \<open>UI.appendUL\<close> only, and that call throws before anything is appended.
\<close>

definition handle :: "ws_msg \<Rightarrow> wsclient \<Rightarrow> wsclient \<times> js_error option" where
  "handle m c =
     (if truthy_nat (archive_id m) then
        (c\<lparr>dom := (dom c)\<lparr>downloadLink_href :=
               Config_apiBase @ ''/logs/download/'' @ show_nat (case_option 0 id (archive_id m)),
             download_section_hidden := False\<rparr>\<rparr>, None)
      else
        (case (if truthy_str (current_agent m)
               then highlight (case_option [] id (current_agent m))
                      ((dom c)\<lparr>currentAgent := case_option [] id (current_agent m)\<rparr>)
               else (dom c, None)) of
           (p1, Some e) \<Rightarrow> (c\<lparr>dom := p1\<rparr>, Some e)
         | (p1, None) \<Rightarrow>
            (let p2 = (if truthy_str (step_name m)
                       then p1\<lparr>currentPhase := case_option [] id (step_name m)\<rparr> else p1);
                 c2 = c\<lparr>dom := p2\<rparr>
             in if truthy_str (step_name m) \<and> UI_call ''appendUL'' \<noteq> None
                then (c2, UI_call ''appendUL'')
                else if truthy_str (from_agent m) \<and> UI_call ''appendUL'' \<noteq> None
                then (c2, UI_call ''appendUL'')
                else if truthy_num (cost_of m) then
                  (case chart_call_method ''push'' (chart c2) (step_name m)
                          (case_option 0 id (cost_of m)) of
                     Inl e \<Rightarrow> (c2, None)
                   | Inr ch \<Rightarrow> (c2\<lparr>chart := Some ch\<rparr>, None))
                else (c2, None))))"

text \<open>
  What the browser delivers to the client: the socket opened, a message arrived, the
  socket closed, the pending timer fired. A socket opens at most once and only while
  connecting, delivers messages only while open, and closes once; an event that the
  state of the socket excludes changes nothing.
\<close>

datatype ws_event = EvOpen | EvMessage ws_msg | EvClose | EvTimer

text \<open>
  \<open>onopen\<close> calls \<open>UI.toggleSpinner(false)\<close>; \<open>onmessage\<close> calls \<open>_handle\<close>, and an
  exception that leaves a handler ends that handler only; \<open>onclose\<close> sets the timer
  \<open>2 ** retry * 1000\<close> when \<open>retry < 5\<close> and calls \<open>UI.toast\<close> otherwise; the timer calls
  \<open>_connect(retry + 1)\<close>. Neither \<open>UI.toggleSpinner\<close> nor \<open>UI.toast\<close> is a method of
  \<open>UI\<close>: both calls throw and write nothing. \<open>EvTimer\<close> fires the oldest pending
  callback.
\<close>

fun step :: "ws_event \<Rightarrow> wsclient \<Rightarrow> wsclient" where
  "step EvOpen c = (if readyState c = CONNECTING then c\<lparr>readyState := OPEN\<rparr> else c)"
| "step (EvMessage m) c = (if readyState c = OPEN then fst (handle m c) else c)"
| "step EvClose c =
     (if readyState c = CLOSED then c
      else if retry c < 5
      then c\<lparr>readyState := CLOSED, timers := timers c @ [(2 ^ retry c * 1000, retry c + 1)]\<rparr>
      else c\<lparr>readyState := CLOSED\<rparr>)"
| "step EvTimer c =
     (case timers c of [] \<Rightarrow> c | (d, r) # ts \<Rightarrow> connect r (c\<lparr>timers := ts\<rparr>))"

definition run :: "ws_event list \<Rightarrow> wsclient \<Rightarrow> wsclient" where
  "run evs c = fold step evs c"

text \<open>Applying a delivered stream: one call of \<open>_handle\<close> for each event, in order.\<close>

definition apply_stream :: "ws_msg list \<Rightarrow> wsclient \<Rightarrow> wsclient" where
  "apply_stream ms c = fold (\<lambda>m c. fst (handle m c)) ms c"

text \<open>
  A socket that is lost and replaced: the close, the callback that the close has set,
  and the opening of the socket that the callback constructs. The new socket has the
  address of the old one: \<open>this.url\<close> names the workflow and no sequence number.
\<close>

definition reconnect :: "ws_event list" where
  "reconnect = [EvClose, EvTimer, EvOpen]"

text \<open>
  What the browser delivers to a client that receives the first \<open>n\<close> events of a stream,
  loses its socket, reconnects, and is sent the stream again from position \<open>k\<close> on. The
  hub that sends is not among the sources, so the position is a parameter: \<open>k = n\<close> is a
  replay of the missed events alone, \<open>k = 0\<close> a replay from the start, and with \<open>k \<le> n\<close>
  no missed event is left out.
\<close>

definition resubscribed :: "ws_msg list \<Rightarrow> nat \<Rightarrow> nat \<Rightarrow> ws_event list" where
  "resubscribed evs n k = map EvMessage (take n evs) @ reconnect @ map EvMessage (drop k evs)"

section \<open>api.js, config.js and history.js: the history table\<close>












text \<open>
  \<open>_json(res)\<close> of \<open>api.js\<close>: the parsed body of a response that is ok, an exception
  with the status otherwise.
\<close>

record 'a http_response =
  ok :: bool
  http_status :: nat
  body :: 'a

definition json_of :: "'a http_response \<Rightarrow> js_error + 'a" where
  "json_of res = (if \<not> ok res then Inl (Error (''HTTP '' @ show_nat (http_status res)))
                  else Inr (body res))"


section \<open>The orchestration core, from the specification\<close>

text \<open>
  The backend (submit endpoint, workflow state machine, cost ledger) is not among the
  source files; the browser client is. The definitions of this section follow the
  specification's sections 3, 4.2, 4.3 and 6.
\<close>

text \<open>Modelled from the spec: the phases of the workflow state machine (section 4.3).\<close>

datatype phase = Intake | StakeholderRefine | DbDesign | UiGeneration | CodeGeneration
  | QA | Security | Patch | Archiving

text \<open>Modelled from the spec: the kinds of \<open>AgentError\<close> (sections 4.1 and 7).\<close>

datatype agent_error = Transport | Timeout | Validation

text \<open>Modelled from the spec: the named reasons of a failed workflow (sections 4.3 and 7).\<close>

datatype fail_reason = RetryBudgetExhausted | BudgetExceeded | AgentFailed agent_error

text \<open>Modelled from the spec: the status of a workflow (section 3).\<close>

datatype wf_status = Pending | Running | Succeeded | Failed fail_reason | Cancelled

text \<open>
  Modelled from the spec: the submit request \<open>{project_name, requirement, model?,
  budget_cap?, max_loops?}\<close> (section 6).
\<close>

record submit_request =
  project_name :: string
  requirement :: string
  model :: "string option"
  budget_cap :: "real option"
  max_loops :: "nat option"

text \<open>Modelled from the spec: the response \<open>{workflow_id}\<close> of submit (section 6).\<close>

record submit_response =
  workflow_id :: nat

text \<open>
  Modelled from the spec: what an agent call returns (section 4.1), an output with its
  cost, where for a quality gate the output says whether the gate passed, or an error
  after the retries of the agent client.
\<close>

datatype agent_result = AgentOk real bool | AgentErr agent_error

text \<open>
  Modelled from the spec: the workflow (section 3), with the loop counter, the ledger of
  spend deltas (section 4.2) and the persisted steps, each with the phase whose agent was
  invoked and what it returned, in sequence order. A workflow without a budget cap has
  none to exceed.
\<close>

record workflow =
  wf_id :: nat
  wf_project_name :: string
  wf_requirement :: string
  wf_model :: "string option"
  wf_budget_cap :: "real option"
  wf_max_loops :: nat
  wf_phase :: phase
  wf_status :: wf_status
  loop_count :: nat
  ledger :: "real list"
  steps :: "(phase \<times> agent_result) list"

text \<open>Modelled from the spec: the server keeps the workflows and generates identifiers.\<close>

record server =
  next_id :: nat
  workflows :: "workflow list"

text \<open>Modelled from the spec: the server before any workflow was submitted.\<close>

definition empty_server :: server where
  "empty_server = \<lparr>next_id = 1, workflows = []\<rparr>"

text \<open>Modelled from the spec: the workflow that an identifier names (section 3).\<close>

definition find_workflow :: "server \<Rightarrow> nat \<Rightarrow> workflow option" where
  "find_workflow s i = find (\<lambda>w. wf_id w = i) (workflows s)"

text \<open>
  Modelled from the spec: submit workflow (section 6). The workflow is created with a
  new identifier, in the first phase, with an empty ledger; \<open>max_loops\<close> is 3 when the
  request does not give it.
\<close>

definition new_workflow :: "nat \<Rightarrow> submit_request \<Rightarrow> workflow" where
  "new_workflow i req =
     \<lparr>wf_id = i, wf_project_name = project_name req, wf_requirement = requirement req,
      wf_model = model req, wf_budget_cap = budget_cap req,
      wf_max_loops = (case max_loops req of None \<Rightarrow> 3 | Some n \<Rightarrow> n),
      wf_phase = Intake, wf_status = Pending, loop_count = 0, ledger = [], steps = []\<rparr>"

text \<open>
  Modelled from the spec: submit workflow (section 6), the response and the server with
  the created workflow.
\<close>

definition submit_workflow :: "submit_request \<Rightarrow> server \<Rightarrow> submit_response \<times> server" where
  "submit_workflow req s =
     (\<lparr>workflow_id = next_id s\<rparr>,
      s\<lparr>next_id := next_id s + 1, workflows := workflows s @ [new_workflow (next_id s) req]\<rparr>)"

text \<open>Modelled from the spec: the endpoint answers a submit request with the response.\<close>

definition post_workflow ::
  "submit_request \<Rightarrow> server \<Rightarrow> submit_response http_response \<times> server" where
  "post_workflow req s =
     (\<lparr>ok = True, http_status = 200, body = fst (submit_workflow req s)\<rparr>,
      snd (submit_workflow req s))"

text \<open>Modelled from the spec: \<open>current_total\<close> is the fold of the ledger (section 4.2).\<close>

definition current_total :: "workflow \<Rightarrow> real" where
  "current_total w = sum_list (ledger w)"

text \<open>
  Modelled from the spec: \<open>reserve\<close> (section 4.2), the check made before an agent is
  invoked: the budget is exceeded when the estimated cost of the step would push the
  current total above the cap.
\<close>

definition reserve :: "workflow \<Rightarrow> real \<Rightarrow> bool" where
  "reserve w amount =
     (case wf_budget_cap w of None \<Rightarrow> True | Some cap \<Rightarrow> \<not> current_total w + amount > cap)"

text \<open>
  Modelled from the spec: the terminal statuses (section 3): succeeded, failed, cancelled.
\<close>

definition terminal :: "wf_status \<Rightarrow> bool" where
  "terminal st = (st \<noteq> Pending \<and> st \<noteq> Running)"

text \<open>
  Modelled from the spec: a failing quality gate (section 4.3). Control returns to code
  generation through the patch phase and the loop counter increments; when the counter
  would exceed \<open>max_loops\<close> the workflow fails with \<open>RetryBudgetExhausted\<close> instead.
\<close>

definition gate_failed :: "workflow \<Rightarrow> workflow" where
  "gate_failed w =
     (if loop_count w + 1 > wf_max_loops w then w\<lparr>wf_status := Failed RetryBudgetExhausted\<rparr>
      else w\<lparr>loop_count := loop_count w + 1, wf_phase := Patch\<rparr>)"

text \<open>Modelled from the spec: the sequence of the phases (section 4.3).\<close>

fun next_phase :: "phase \<Rightarrow> bool \<Rightarrow> workflow \<Rightarrow> workflow" where
  "next_phase Intake _ w = w\<lparr>wf_phase := StakeholderRefine\<rparr>"
| "next_phase StakeholderRefine _ w = w\<lparr>wf_phase := DbDesign\<rparr>"
| "next_phase DbDesign _ w = w\<lparr>wf_phase := UiGeneration\<rparr>"
| "next_phase UiGeneration _ w = w\<lparr>wf_phase := CodeGeneration\<rparr>"
| "next_phase CodeGeneration _ w = w\<lparr>wf_phase := QA\<rparr>"
| "next_phase QA passed w = (if passed then w\<lparr>wf_phase := Security\<rparr> else gate_failed w)"
| "next_phase Security passed w = (if passed then w\<lparr>wf_phase := Archiving\<rparr> else gate_failed w)"
| "next_phase Patch _ w = w\<lparr>wf_phase := CodeGeneration\<rparr>"
| "next_phase Archiving _ w = w\<lparr>wf_status := Succeeded\<rparr>"

text \<open>
  Modelled from the spec: what the environment decides about one step of the
  orchestrator: the estimated cost of the step, what the agent returns when it is
  invoked, and whether a cancel request is observed at the phase boundary after it.
\<close>

record step_env =
  estimate :: real
  result :: agent_result
  cancel :: bool

text \<open>
  Modelled from the spec: one step of the orchestrator (sections 4.2, 4.3 and 7). A
  terminal workflow is immutable. The budget is checked before the agent is invoked, and
  a step that does not fit fails the workflow with \<open>BudgetExceeded\<close>. Otherwise the
  agent of the current phase is invoked and the step is persisted; an agent error fails
  the workflow; a result commits its cost to the ledger, after which a cancel request is
  honoured or the workflow moves on.
\<close>

definition advance :: "step_env \<Rightarrow> workflow \<Rightarrow> workflow" where
  "advance e w =
     (if terminal (wf_status w) then w
      else if \<not> reserve w (estimate e) then w\<lparr>wf_status := Failed BudgetExceeded\<rparr>
      else
        (let w1 = w\<lparr>wf_status := Running, steps := steps w @ [(wf_phase w, result e)]\<rparr> in
         case result e of
           AgentErr k \<Rightarrow> w1\<lparr>wf_status := Failed (AgentFailed k)\<rparr>
         | AgentOk c passed \<Rightarrow>
             (let w2 = w1\<lparr>ledger := ledger w1 @ [c]\<rparr> in
              if cancel e then w2\<lparr>wf_status := Cancelled\<rparr>
              else next_phase (wf_phase w) passed w2)))"

text \<open>
  Modelled from the spec: a run of the orchestrator, one step after the other (section 5:
  one logical thread of control for a workflow).
\<close>

definition orchestrate :: "step_env list \<Rightarrow> workflow \<Rightarrow> workflow" where
  "orchestrate es w = fold advance es w"

text \<open>
  Modelled from the spec: how often a quality gate reported failing findings, read off
  the persisted steps (the workflow state machine, in which the spec counts them, is
  not among the sources).
\<close>

definition gate_failures :: "workflow \<Rightarrow> nat" where
  "gate_failures w =
     length (filter (\<lambda>(p, r). (p = QA \<or> p = Security) \<and> (case r of AgentOk c passed \<Rightarrow> \<not> passed | AgentErr k \<Rightarrow> False))
       (steps w))"

text \<open>
  Modelled from the spec: how often the agent of a phase was invoked, read off the
  persisted steps.
\<close>

definition invocations :: "phase \<Rightarrow> workflow \<Rightarrow> nat" where
  "invocations p w = length (filter (\<lambda>(q, r). q = p) (steps w))"

section \<open>main.js and api.js: starting a workflow\<close>

text \<open>
  The click handler of the
  start button sends the two trimmed inputs and nothing else (an input that is not in the
  document gives the empty text); \<open>API.startWorkflow\<close> posts the payload and parses the
  response.
\<close>

text \<open>
  \<open>String.prototype.trim\<close> removes white space and line terminators from both ends. A
  text is a list of 8-bit characters here, and of the code points that \<open>trim\<close> removes
  these are the ones below 256: tab, line feed, vertical tab, form feed, carriage return,
  space and no-break space. (U+FEFF and the space separators from U+1680 on are not
  characters of this type.)
\<close>

definition is_space :: "char \<Rightarrow> bool" where
  "is_space ch = (ch \<in> set [CHR '' '', CHR 0x09, CHR 0x0A, CHR 0x0B, CHR 0x0C, CHR 0x0D,
     CHR 0xA0])"

definition trim :: "string \<Rightarrow> string" where
  "trim s = rev (dropWhile is_space (rev (dropWhile is_space s)))"

definition start_payload :: "string option \<Rightarrow> string option \<Rightarrow> submit_request" where
  "start_payload project_input requirement_input =
     \<lparr>project_name = (case project_input of None \<Rightarrow> [] | Some v \<Rightarrow> trim v),
      requirement = (case requirement_input of None \<Rightarrow> [] | Some v \<Rightarrow> trim v),
      model = None, budget_cap = None, max_loops = None\<rparr>"

definition startWorkflow :: "submit_request \<Rightarrow> server \<Rightarrow> (js_error + submit_response) \<times> server" where
  "startWorkflow payload s = (json_of (fst (post_workflow payload s)), snd (post_workflow payload s))"

section \<open>Derived descriptions used in the proofs\<close>

subsection \<open>Of the client\<close>

text \<open>The page that \<open>_handle\<close> leaves; \<open>handle_fst\<close> below proves that it is.\<close>

definition handle_page :: "ws_msg \<Rightarrow> page \<Rightarrow> page" where
  "handle_page m p =
     (if truthy_nat (archive_id m) then
        p\<lparr>downloadLink_href :=
             Config_apiBase @ ''/logs/download/'' @ show_nat (case_option 0 id (archive_id m)),
           download_section_hidden := False\<rparr>
      else
        (case (if truthy_str (current_agent m)
               then highlight (case_option [] id (current_agent m))
                      (p\<lparr>currentAgent := case_option [] id (current_agent m)\<rparr>)
               else (p, None)) of
           (p1, Some e) \<Rightarrow> p1
         | (p1, None) \<Rightarrow>
            (if truthy_str (step_name m)
             then p1\<lparr>currentPhase := case_option [] id (step_name m)\<rparr> else p1)))"

text \<open>
  The invariant of the connection logic: the sockets constructed are the first one and
  one for each reconnection; a callback is pending only while the socket is closed, and
  then it is the single one that the close has set.
\<close>

definition conn_inv :: "wsclient \<Rightarrow> bool" where
  "conn_inv c = (sockets c = retry c + 1 \<and> retry c \<le> 5
     \<and> (if readyState c = CLOSED
         then timers c = [] \<or> (retry c < 5 \<and> timers c = [(2 ^ retry c * 1000, retry c + 1)])
         else timers c = []))"

text \<open>
  The page in other coordinates, in which every event acts on every component on its
  own: the active nodes other than the previous node, and whether the previous node is
  active, in place of the set of active nodes.
\<close>

record pview =
  v_href :: string
  v_hidden :: bool
  v_agent :: string
  v_phase :: string
  v_svg :: "string list option"
  v_rest :: "string set"
  v_on :: bool
  v_prev :: "string option"

definition view :: "page \<Rightarrow> pview" where
  "view p = \<lparr>v_href = downloadLink_href p, v_hidden = download_section_hidden p,
     v_agent = currentAgent p, v_phase = currentPhase p, v_svg = svg p,
     v_rest = activeAgent p - set_option (prevAgentNode p),
     v_on = (case prevAgentNode p of None \<Rightarrow> False | Some n \<Rightarrow> n \<in> activeAgent p),
     v_prev = prevAgentNode p\<rparr>"

record peff =
  f_href :: "string option"
  f_hidden :: "bool option"
  f_agent :: "string option"
  f_phase :: "string option"
  f_off :: "string set"
  f_on :: "bool option"
  f_prev :: "string option"

definition ovr :: "'a option \<Rightarrow> 'a \<Rightarrow> 'a" where
  "ovr w x = (case w of None \<Rightarrow> x | Some y \<Rightarrow> y)"

definition act :: "peff \<Rightarrow> pview \<Rightarrow> pview" where
  "act e v = \<lparr>v_href = ovr (f_href e) (v_href v), v_hidden = ovr (f_hidden e) (v_hidden v),
     v_agent = ovr (f_agent e) (v_agent v), v_phase = ovr (f_phase e) (v_phase v),
     v_svg = v_svg v, v_rest = v_rest v - f_off e, v_on = ovr (f_on e) (v_on v),
     v_prev = (case f_prev e of None \<Rightarrow> v_prev v | Some n \<Rightarrow> Some n)\<rparr>"

definition later :: "'a option \<Rightarrow> 'a option \<Rightarrow> 'a option" where
  "later a b = (case b of None \<Rightarrow> a | Some y \<Rightarrow> Some y)"

definition seq_eff :: "peff \<Rightarrow> peff \<Rightarrow> peff" where
  "seq_eff a b = \<lparr>f_href = later (f_href a) (f_href b), f_hidden = later (f_hidden a) (f_hidden b),
     f_agent = later (f_agent a) (f_agent b), f_phase = later (f_phase a) (f_phase b),
     f_off = f_off a \<union> f_off b, f_on = later (f_on a) (f_on b),
     f_prev = later (f_prev a) (f_prev b)\<rparr>"

definition no_eff :: peff where
  "no_eff = \<lparr>f_href = None, f_hidden = None, f_agent = None, f_phase = None, f_off = {},
     f_on = None, f_prev = None\<rparr>"

definition eff_of :: "string list option \<Rightarrow> ws_msg \<Rightarrow> peff" where
  "eff_of N m =
    (if truthy_nat (archive_id m) then
       no_eff\<lparr>f_href := Some (Config_apiBase @ ''/logs/download/'' @ show_nat (case_option 0 id (archive_id m))),
              f_hidden := Some False\<rparr>
     else if \<not> truthy_str (current_agent m) then
       no_eff\<lparr>f_phase := (if truthy_str (step_name m) then step_name m else None)\<rparr>
     else
       (case (AGENT_NODE_MAP_get (case_option [] id (current_agent m)), N) of
          (NoNode, _) \<Rightarrow> no_eff\<lparr>f_agent := current_agent m,
                           f_phase := (if truthy_str (step_name m) then step_name m else None)\<rparr>
        | (_, None) \<Rightarrow> no_eff\<lparr>f_agent := current_agent m,
                           f_phase := (if truthy_str (step_name m) then step_name m else None)\<rparr>
        | (NodeId i, Some nodes) \<Rightarrow>
            if i \<in> set nodes
            then no_eff\<lparr>f_agent := current_agent m,
                   f_phase := (if truthy_str (step_name m) then step_name m else None),
                   f_off := {i}, f_on := Some True, f_prev := Some i\<rparr>
            else no_eff\<lparr>f_agent := current_agent m,
                   f_phase := (if truthy_str (step_name m) then step_name m else None),
                   f_on := Some False\<rparr>
        | (Inherited, Some nodes) \<Rightarrow> no_eff\<lparr>f_agent := current_agent m, f_on := Some False\<rparr>))"

fun effs :: "string list option \<Rightarrow> ws_msg list \<Rightarrow> peff" where
  "effs N [] = no_eff"
| "effs N (m # ms) = seq_eff (eff_of N m) (effs N ms)"

subsection \<open>Of the orchestration core\<close>

text \<open>
  Whether a patch or a code generation is still to come in the current pass: 1 while the
  workflow is not terminal and is in the patch phase, or in a phase before the quality
  gates.
\<close>

definition pend_patch :: "workflow \<Rightarrow> nat" where
  "pend_patch w = (if \<not> terminal (wf_status w) \<and> wf_phase w = Patch then 1 else 0)"

definition pend_codegen :: "workflow \<Rightarrow> nat" where
  "pend_codegen w = (if \<not> terminal (wf_status w) \<and> wf_phase w \<noteq> QA \<and> wf_phase w \<noteq> Security
      \<and> wf_phase w \<noteq> Archiving then 1 else 0)"

text \<open>
  The gate failures against the loop counter: equal while the workflow goes on, one more
  when the failure that exhausted the retries has been persisted, at most one more when
  the workflow was cancelled right after a failure.
\<close>

definition gate_inv :: "workflow \<Rightarrow> bool" where
  "gate_inv w =
     (if wf_status w = Failed RetryBudgetExhausted
      then gate_failures w = loop_count w + 1 \<and> loop_count w = wf_max_loops w
      else if wf_status w = Cancelled then gate_failures w \<le> loop_count w + 1
      else gate_failures w = loop_count w)"

definition loop_inv :: "workflow \<Rightarrow> bool" where
  "loop_inv w = (loop_count w \<le> wf_max_loops w
     \<and> invocations Patch w + pend_patch w \<le> loop_count w
     \<and> invocations CodeGeneration w + pend_codegen w \<le> loop_count w + 1
     \<and> gate_inv w)"

text \<open>The servers that submit requests can produce, and their invariant.\<close>

definition submit_all :: "submit_request list \<Rightarrow> server \<Rightarrow> server" where
  "submit_all reqs s = fold (\<lambda>r s. snd (submit_workflow r s)) reqs s"

definition ids_below :: "server \<Rightarrow> bool" where
  "ids_below s = list_all (\<lambda>w. wf_id w < next_id s) (workflows s)"

section \<open>Sample inputs\<close>

subsection \<open>Events, event sequences and clients\<close>

definition qa_event :: ws_msg where
  "qa_event = \<lparr>sequence = Some 1, step_name = Some ''QA'', current_agent = Some ''QA'',
     output_data = Some \<lparr>cost_used = None, cost = Some (1/2)\<rparr>, from_agent = None,
     to_agent = None, archive_id = None, error = None\<rparr>"

definition security_event :: ws_msg where
  "security_event = \<lparr>sequence = Some 2, step_name = Some ''Security'',
     current_agent = Some ''Security'', output_data = None, from_agent = None,
     to_agent = None, archive_id = None, error = None\<rparr>"

text \<open>The event that announces the archive.\<close>

definition archive_event :: ws_msg where
  "archive_event = \<lparr>sequence = Some 3, step_name = None, current_agent = None,
     output_data = None, from_agent = None, to_agent = None, archive_id = Some 12,
     error = None\<rparr>"

definition cost_event :: ws_msg where
  "cost_event = \<lparr>sequence = Some 4, step_name = None, current_agent = None,
     output_data = Some \<lparr>cost_used = Some (1/2), cost = None\<rparr>, from_agent = None,
     to_agent = None, archive_id = None, error = None\<rparr>"

text \<open>Each socket fails at once and the timer fires: five times, and up to the fifth close.\<close>

definition five_reconnects :: "ws_event list" where
  "five_reconnects = [EvClose, EvTimer, EvClose, EvTimer, EvClose, EvTimer, EvClose, EvTimer,
     EvClose, EvTimer]"

definition five_closes :: "ws_event list" where
  "five_closes = [EvClose, EvTimer, EvClose, EvTimer, EvClose, EvTimer, EvClose, EvTimer,
     EvClose]"

text \<open>The client once its first socket has opened.\<close>

definition client0 :: wsclient where
  "client0 = step EvOpen (WSClient_new None buildMain_page)"

text \<open>
  A page whose diagram is drawn, with the node ids of the flow definition that the agent
  map names, and a client on that page once its first socket has opened.
\<close>

definition drawn_page :: page where
  "drawn_page = buildMain_page\<lparr>svg := Some [''DBD'', ''UI'', ''CODE'', ''QA'', ''SEC'', ''PATCH'']\<rparr>"

definition client1 :: wsclient where
  "client1 = step EvOpen (WSClient_new None drawn_page)"

definition empty_chart :: "string option cost_chart" where
  "empty_chart = \<lparr>labels = [], data = []\<rparr>"

subsection \<open>A history list\<close>



subsection \<open>Runs of the orchestration core\<close>

text \<open>
  Modelled from the spec: the scenarios of its section 8, as inputs of the orchestration
  core: a budget of 5.00 with two loops and a gate that fails twice and then passes, or
  fails every time; a budget of 0.01.
\<close>

definition scenario_request :: submit_request where
  "scenario_request = \<lparr>project_name = ''todo'', requirement = ''build a todo app'',
     model = None, budget_cap = Some 5, max_loops = Some 2\<rparr>"

definition passing_step :: step_env where
  "passing_step = \<lparr>estimate = 1/10, result = AgentOk (1/10) True, cancel = False\<rparr>"

definition failing_step :: step_env where
  "failing_step = \<lparr>estimate = 1/10, result = AgentOk (1/10) False, cancel = False\<rparr>"

definition fails_twice_then_passes :: "step_env list" where
  "fails_twice_then_passes =
     [passing_step, passing_step, passing_step, passing_step, passing_step, failing_step,
      passing_step, passing_step, failing_step,
      passing_step, passing_step, passing_step, passing_step, passing_step]"

definition fails_every_time :: "step_env list" where
  "fails_every_time =
     [passing_step, passing_step, passing_step, passing_step, passing_step, failing_step,
      passing_step, passing_step, failing_step,
      passing_step, passing_step, failing_step]"

definition small_budget_request :: submit_request where
  "small_budget_request = \<lparr>project_name = ''todo'', requirement = ''build a todo app'',
     model = None, budget_cap = Some (1/100), max_loops = Some 2\<rparr>"

definition free_step :: step_env where
  "free_step = \<lparr>estimate = 0, result = AgentOk 0 True, cancel = False\<rparr>"

section \<open>Properties of CostChart\<close>

lemma chart_apply_length:
  "length (labels c) = length (data c) \<Longrightarrow>
   length (labels (chart_apply x c)) = length (data (chart_apply x c))"
  by (cases x) (simp_all add: add_def reset_def)

lemma chart_calls_length:
  "length (labels c) = length (data c) \<Longrightarrow>
   length (labels (fold chart_apply xs c)) = length (data (fold chart_apply xs c))"
  by (induction xs arbitrary: c) (simp_all add: chart_apply_length)

text \<open>
  Claim C9. A chart has as many labels as data points: both arrays are empty after
  construction, the equality holds after any sequence of \<open>add\<close> and \<open>reset\<close> calls,
  \<open>add\<close> appends one label and one value behind the stored ones, which stay as they
  were, and \<open>reset\<close> leaves both arrays empty.
\<close>

theorem CostChart_labels_match_data:
  assumes "CostChart_new cv = Inr c0"
  shows "labels c0 = [] \<and> data c0 = []
    \<and> length (labels (fold chart_apply calls c0)) = length (data (fold chart_apply calls c0))
    \<and> labels (add l v (fold chart_apply calls c0)) = labels (fold chart_apply calls c0) @ [l]
    \<and> data (add l v (fold chart_apply calls c0)) = data (fold chart_apply calls c0) @ [v]
    \<and> labels (reset (fold chart_apply calls c0)) = []
    \<and> data (reset (fold chart_apply calls c0)) = []"
proof -
  from assms have c0: "labels c0 = []" "data c0 = []"
    by (auto simp: CostChart_new_def split: if_splits)
  then have "length (labels c0) = length (data c0)" by simp
  then have "length (labels (fold chart_apply calls c0)) = length (data (fold chart_apply calls c0))"
    by (rule chart_calls_length)
  with c0 show ?thesis by (simp add: add_def reset_def)
qed

theorem CostChart_labels_match_data_witness:
  "CostChart_new \<lparr>has_2d_context = True\<rparr> = Inr \<lparr>labels = ([] :: string list), data = []\<rparr>
   \<and> labels (fold chart_apply [Add ''QA'' 1, Reset, Add ''Patch'' 2] \<lparr>labels = [], data = []\<rparr>) = [''Patch'']
   \<and> data (fold chart_apply [Add ''QA'' 1, Reset, Add ''Patch'' 2] \<lparr>labels = [], data = []\<rparr>) = [2]
   \<and> length (labels (fold chart_apply [Add ''QA'' 1, Reset, Add ''Patch'' 2] \<lparr>labels = [], data = []\<rparr>))
     = length (data (fold chart_apply [Add ''QA'' 1, Reset, Add ''Patch'' 2] \<lparr>labels = [], data = []\<rparr>))"
proof -
  have h: "CostChart_new \<lparr>has_2d_context = True\<rparr> = Inr \<lparr>labels = ([] :: string list), data = []\<rparr>"
    by (simp add: CostChart_new_def)
  show ?thesis
    using h CostChart_labels_match_data [OF h, of "[Add ''QA'' 1, Reset, Add ''Patch'' 2]" "''x''" 0]
    by (simp add: add_def reset_def)
qed

section \<open>Properties of CostProgress\<close>

text \<open>
  Claim C10. For a current cost that is not negative and any maximal cost, the fill
  percentage lies between 0 and 100: it is 0 when the maximal cost is not positive and
  the smaller of 100 and current / maximal * 100 otherwise, so the bar is never wider
  than 100 percent: when the current cost is above a positive maximal cost it is 100.
\<close>

theorem fillPercentage_bounds:
  assumes "0 \<le> currentCost"
  shows "0 \<le> fillPercentage maxCost currentCost
    \<and> fillPercentage maxCost currentCost \<le> 100
    \<and> fillPercentage maxCost currentCost =
        (if maxCost \<le> 0 then 0 else min 100 (currentCost / maxCost * 100))
    \<and> (0 < maxCost \<and> maxCost < currentCost \<longrightarrow> fillPercentage maxCost currentCost = 100)"
proof -
  have bounds: "0 \<le> fillPercentage maxCost currentCost
    \<and> fillPercentage maxCost currentCost \<le> 100
    \<and> fillPercentage maxCost currentCost =
        (if maxCost \<le> 0 then 0 else min 100 (currentCost / maxCost * 100))"
    using assms by (auto simp: fillPercentage_def)
  have full: "fillPercentage maxCost currentCost = 100" if "0 < maxCost" "maxCost < currentCost"
  proof -
    from that have "1 < currentCost / maxCost" by simp
    then have "1 * 100 < currentCost / maxCost * 100" by (rule mult_strict_right_mono) simp
    then have "min 100 (currentCost / maxCost * 100) = 100" by (simp only: min_def) simp
    with that show ?thesis by (simp only: fillPercentage_def if_True)
  qed
  from bounds full show ?thesis by simp
qed

theorem fillPercentage_bounds_witness:
  "(0::real) \<le> 7 \<and> fillPercentage 5 7 = 100 \<and> fillPercentage 0 7 = 0 \<and> fillPercentage 8 2 = 25"
proof -
  have h: "(0::real) \<le> 7" by simp
  show ?thesis
    using h fillPercentage_bounds [OF h, of 5]
    by (simp add: fillPercentage_def)
qed

section \<open>Properties of WSClient\<close>

subsection \<open>What a call of \<open>_handle\<close> can change\<close>

lemma UI_call_appendUL: "UI_call ''appendUL'' = Some TypeError"
  by (simp add: UI_call_def UI_methods_def)

lemma chart_push: "chart_call_method ''push'' ch l v = Inl TypeError"
  by (simp add: chart_call_method_def split: option.splits)

lemma handle_fst: "fst (handle m c) = c\<lparr>dom := handle_page m (dom c)\<rparr>"
proof (cases "truthy_nat (archive_id m)")
  case True
  then show ?thesis by (simp add: handle_def handle_page_def)
next
  case False
  obtain p1 e1 where h: "(if truthy_str (current_agent m)
               then highlight (case_option [] id (current_agent m))
                      ((dom c)\<lparr>currentAgent := case_option [] id (current_agent m)\<rparr>)
               else (dom c, None)) = (p1, e1)" by (meson surj_pair)
  show ?thesis
  proof (cases e1)
    case None
    with False h show ?thesis
      by (simp add: handle_def handle_page_def chart_push Let_def UI_call_appendUL)
  next
    case (Some e)
    with False h show ?thesis by (simp add: handle_def handle_page_def)
  qed
qed

lemma handle_conn:
  "retry (fst (handle m c)) = retry c"
  "readyState (fst (handle m c)) = readyState c"
  "timers (fst (handle m c)) = timers c"
  "sockets (fst (handle m c)) = sockets c"
  "chart (fst (handle m c)) = chart c"
  by (simp_all add: handle_fst)

subsection \<open>The connection logic\<close>

lemma conn_inv_new: "conn_inv (WSClient_new ch p)"
  by (simp add: conn_inv_def WSClient_new_def connect_def)

lemma conn_inv_step: "conn_inv c \<Longrightarrow> conn_inv (step e c)"
proof (cases e)
  case EvOpen
  assume "conn_inv c" with EvOpen show ?thesis by (auto simp: conn_inv_def)
next
  case (EvMessage m)
  assume "conn_inv c" with EvMessage show ?thesis by (auto simp: conn_inv_def handle_conn)
next
  case EvClose
  assume "conn_inv c" with EvClose show ?thesis by (auto simp: conn_inv_def)
next
  case EvTimer
  assume "conn_inv c" with EvTimer show ?thesis
    by (auto simp: conn_inv_def connect_def split: if_splits list.splits)
qed

lemma conn_inv_run: "conn_inv c \<Longrightarrow> conn_inv (run evs c)"
  unfolding run_def by (induction evs arbitrary: c) (simp_all add: conn_inv_step)

lemma dead_step: "readyState c = CLOSED \<Longrightarrow> timers c = [] \<Longrightarrow> step e c = c"
  by (cases e) simp_all

lemma dead_run: "readyState c = CLOSED \<Longrightarrow> timers c = [] \<Longrightarrow> run evs c = c"
  unfolding run_def by (induction evs) (simp_all add: dead_step)

text \<open>
  Claim C8, as amended. In every state the client reaches, the sockets constructed are
  the first one and one for each reconnection made, and \<open>retry\<close> counts the
  reconnections; there are never more than five reconnections (six sockets). A close
  constructs no socket itself and leaves at most one callback pending. While fewer than
  five reconnections have been made, the close of the live socket sets one callback,
  with the delay \<open>2 ^ retry * 1000\<close> milliseconds, which constructs the next socket. The
  close that finds five reconnections made (the sixth close, not the fifth) sets none,
  and nothing that happens afterwards changes the client.
\<close>

theorem WSClient_reconnect_bound:
  assumes "c = run evs (WSClient_new ch p)"
  shows "sockets c = retry c + 1 \<and> sockets c \<le> 6
    \<and> length (timers (step EvClose c)) \<le> 1
    \<and> sockets (step EvClose c) = sockets c
    \<and> (readyState c \<noteq> CLOSED \<and> retry c < 5 \<longrightarrow>
         timers (step EvClose c) = [(2 ^ retry c * 1000, retry c + 1)]
         \<and> sockets (step EvTimer (step EvClose c)) = sockets c + 1
         \<and> retry (step EvTimer (step EvClose c)) = retry c + 1)
    \<and> (readyState c \<noteq> CLOSED \<and> retry c = 5 \<longrightarrow>
         timers (step EvClose c) = []
         \<and> run evs' (step EvClose c) = step EvClose c)"
proof -
  have inv: "conn_inv c" unfolding assms by (rule conn_inv_run [OF conn_inv_new])
  then have a: "sockets c = retry c + 1 \<and> sockets c \<le> 6" by (simp add: conn_inv_def)
  from inv have alive: "readyState c \<noteq> CLOSED \<Longrightarrow> timers c = []"
    by (simp add: conn_inv_def split: if_splits)
  from inv have b: "length (timers (step EvClose c)) \<le> 1"
    by (auto simp: conn_inv_def split: if_splits)
  have c: "sockets (step EvClose c) = sockets c" by simp
  have d: "timers (step EvClose c) = [(2 ^ retry c * 1000, retry c + 1)]
         \<and> sockets (step EvTimer (step EvClose c)) = sockets c + 1
         \<and> retry (step EvTimer (step EvClose c)) = retry c + 1"
    if "readyState c \<noteq> CLOSED" "retry c < 5"
    using that alive by (simp add: connect_def)
  have e: "timers (step EvClose c) = [] \<and> run evs' (step EvClose c) = step EvClose c"
    if "readyState c \<noteq> CLOSED" "retry c = 5"
  proof -
    from that alive have "readyState (step EvClose c) = CLOSED" "timers (step EvClose c) = []"
      by simp_all
    then show ?thesis by (simp add: dead_run)
  qed
  from a b c d e show ?thesis by blast
qed

lemma run_five_reconnects:
  "run five_reconnects (WSClient_new None buildMain_page)
   = \<lparr>dom = buildMain_page, chart = None, retry = 5, readyState = CONNECTING, timers = [],
      sockets = 6\<rparr>"
  by (simp add: run_def five_reconnects_def WSClient_new_def connect_def)

theorem WSClient_reconnect_bound_witness:
  "sockets (run five_reconnects (WSClient_new None buildMain_page)) = 6
   \<and> retry (run five_reconnects (WSClient_new None buildMain_page)) = 5
   \<and> readyState (run five_reconnects (WSClient_new None buildMain_page)) = CONNECTING
   \<and> run [EvTimer, EvOpen] (step EvClose (run five_reconnects (WSClient_new None buildMain_page)))
       = step EvClose (run five_reconnects (WSClient_new None buildMain_page))"
  using WSClient_reconnect_bound [OF refl, of five_reconnects None buildMain_page "[EvTimer, EvOpen]"]
  by (simp add: run_five_reconnects)

text \<open>
  Claim C8 as stated fails: after the fifth close the counter is 4, the close sets a
  callback with the delay 16000, and the callback constructs the sixth socket.
\<close>

theorem fifth_close_reconnects:
  "retry (run five_closes (WSClient_new None buildMain_page)) = 4
   \<and> timers (run five_closes (WSClient_new None buildMain_page)) = [(16000, 5)]
   \<and> sockets (run five_closes (WSClient_new None buildMain_page)) = 5
   \<and> sockets (step EvTimer (run five_closes (WSClient_new None buildMain_page))) = 6"
  by (simp add: run_def five_closes_def WSClient_new_def connect_def)

subsection \<open>Events applied more than once\<close>

lemma view_inj: "view p = view q \<Longrightarrow> p = q"
proof -
  assume h: "view p = view q"
  have 1: "downloadLink_href p = downloadLink_href q"
    "download_section_hidden p = download_section_hidden q"
    "currentAgent p = currentAgent q" "currentPhase p = currentPhase q" "svg p = svg q"
    "prevAgentNode p = prevAgentNode q"
    using arg_cong [OF h, of v_href] arg_cong [OF h, of v_hidden] arg_cong [OF h, of v_agent]
      arg_cong [OF h, of v_phase] arg_cong [OF h, of v_svg] arg_cong [OF h, of v_prev]
    by (simp_all add: view_def)
  have r: "activeAgent p - set_option (prevAgentNode p)
      = activeAgent q - set_option (prevAgentNode q)"
    using arg_cong [OF h, of v_rest] by (simp add: view_def)
  have o: "(case prevAgentNode p of None \<Rightarrow> False | Some n \<Rightarrow> n \<in> activeAgent p)
      = (case prevAgentNode q of None \<Rightarrow> False | Some n \<Rightarrow> n \<in> activeAgent q)"
    using arg_cong [OF h, of v_on] by (simp add: view_def)
  have "activeAgent p = activeAgent q"
  proof (cases "prevAgentNode p")
    case None
    with r 1 show ?thesis by simp
  next
    case (Some n)
    with 1 have q: "prevAgentNode q = Some n" by simp
    from r Some q have "activeAgent p - {n} = activeAgent q - {n}" by simp
    moreover from o Some q have "(n \<in> activeAgent p) = (n \<in> activeAgent q)" by simp
    ultimately show ?thesis by blast
  qed
  with 1 show ?thesis by simp
qed

lemma act_seq: "act b (act a v) = act (seq_eff a b) v"
  by (auto simp: act_def seq_eff_def ovr_def later_def split: option.splits)

lemma svg_highlight: "svg (fst (highlight a p)) = svg p"
  by (simp add: highlight_def Let_def split: node_ref.splits option.splits)

lemma svg_handle_page: "svg (handle_page m p) = svg p"
proof -
  have "svg (fst (highlight a (p\<lparr>currentAgent := b\<rparr>))) = svg p" for a b
    by (simp add: svg_highlight)
  then show ?thesis
    by (auto simp: handle_page_def split: prod.splits option.splits) (metis fst_conv)+
qed

lemma hl_skip:
  "AGENT_NODE_MAP_get a = NoNode \<or> svg p = None \<Longrightarrow> highlight a p = (p, None)"
  by (auto simp: highlight_def split: node_ref.splits)

lemma hl_found:
  "AGENT_NODE_MAP_get a = NodeId i \<Longrightarrow> svg p = Some ns \<Longrightarrow> i \<in> set ns \<Longrightarrow>
   view (fst (highlight a p)) = (view p)\<lparr>v_rest := v_rest (view p) - {i}, v_on := True, v_prev := Some i\<rparr>
   \<and> snd (highlight a p) = None"
  by (cases "prevAgentNode p") (auto simp: highlight_def view_def)

lemma hl_miss:
  "AGENT_NODE_MAP_get a = NodeId i \<Longrightarrow> svg p = Some ns \<Longrightarrow> i \<notin> set ns \<Longrightarrow>
   view (fst (highlight a p)) = (view p)\<lparr>v_on := False\<rparr> \<and> snd (highlight a p) = None"
  by (cases "prevAgentNode p") (auto simp: highlight_def view_def)

lemma hl_inherited:
  "AGENT_NODE_MAP_get a = Inherited \<Longrightarrow> svg p = Some ns \<Longrightarrow>
   view (fst (highlight a p)) = (view p)\<lparr>v_on := False\<rparr> \<and> snd (highlight a p) = Some SyntaxError"
  by (cases "prevAgentNode p") (auto simp: highlight_def view_def)

lemma view_fields:
  "view (p\<lparr>currentAgent := a\<rparr>) = (view p)\<lparr>v_agent := a\<rparr>"
  "view (p\<lparr>currentPhase := s\<rparr>) = (view p)\<lparr>v_phase := s\<rparr>"
  "view (p\<lparr>downloadLink_href := h, download_section_hidden := b\<rparr>)
     = (view p)\<lparr>v_href := h, v_hidden := b\<rparr>"
  by (simp_all add: view_def split: option.splits)

lemma truthy_strD: "truthy_str v \<Longrightarrow> \<exists>s. v = Some s \<and> s \<noteq> []"
  by (cases v) (simp_all add: truthy_str_def)

lemma view_phase:
  "view (if truthy_str st then p\<lparr>currentPhase := case_option [] id st\<rparr> else p)
   = (view p)\<lparr>v_phase := ovr (if truthy_str st then st else None) (v_phase (view p))\<rparr>"
  by (auto simp: view_fields ovr_def dest: truthy_strD)

lemma view_handle_page: "view (handle_page m p) = act (eff_of (svg p) m) (view p)"
proof (cases "truthy_nat (archive_id m)")
  case True
  then show ?thesis
    by (simp add: handle_page_def eff_of_def view_fields act_def no_eff_def ovr_def)
next
  case na: False
  let ?ph = "if truthy_str (step_name m) then step_name m else None"
  show ?thesis
  proof (cases "truthy_str (current_agent m)")
    case False
    with na have "handle_page m p
        = (if truthy_str (step_name m) then p\<lparr>currentPhase := case_option [] id (step_name m)\<rparr> else p)"
      by (simp add: handle_page_def)
    with na False show ?thesis
      by (simp add: view_phase eff_of_def act_def no_eff_def ovr_def)
  next
    case True
    then obtain a where a: "current_agent m = Some a" using truthy_strD by blast
    let ?p = "p\<lparr>currentAgent := a\<rparr>"
    let ?q = "fst (highlight a ?p)"
    have vp: "view ?p = (view p)\<lparr>v_agent := a\<rparr>" by (rule view_fields)
    have sp: "svg ?p = svg p" by simp
    have hp: "handle_page m p = (case snd (highlight a ?p) of
           Some e \<Rightarrow> ?q
         | None \<Rightarrow>
            (if truthy_str (step_name m)
             then ?q\<lparr>currentPhase := case_option [] id (step_name m)\<rparr> else ?q))"
      using na True a by (cases "highlight a ?p") (simp add: handle_page_def split: option.splits)
    have cont: "view (handle_page m p) = (view ?q)\<lparr>v_phase := ovr ?ph (v_phase (view ?q))\<rparr>"
      if "snd (highlight a ?p) = None"
      using that hp view_phase [of "step_name m" ?q] by simp
    show ?thesis
    proof (cases "AGENT_NODE_MAP_get a = NoNode \<or> svg p = None")
      case skip: True
      then have h: "highlight a ?p = (?p, None)" by (simp add: hl_skip)
      have e: "eff_of (svg p) m = no_eff\<lparr>f_agent := Some a, f_phase := ?ph\<rparr>"
        using na True a skip by (auto simp: eff_of_def split: node_ref.splits option.splits)
      from h have "view (handle_page m p) = (view ?p)\<lparr>v_phase := ovr ?ph (v_phase (view ?p))\<rparr>"
        using cont by simp
      then show ?thesis unfolding vp e by (simp add: act_def no_eff_def ovr_def)
    next
      case False
      then obtain ns where ns: "svg ?p = Some ns" and nn: "AGENT_NODE_MAP_get a \<noteq> NoNode" by auto
      show ?thesis
      proof (cases "AGENT_NODE_MAP_get a")
        case NoNode
        with nn show ?thesis by simp
      next
        case (NodeId i)
        show ?thesis
        proof (cases "i \<in> set ns")
          case True
          note h = hl_found [OF NodeId ns True]
          have e: "eff_of (svg p) m = no_eff\<lparr>f_agent := Some a, f_phase := ?ph,
                   f_off := {i}, f_on := Some True, f_prev := Some i\<rparr>"
            using na \<open>truthy_str (current_agent m)\<close> a NodeId ns True by (simp add: eff_of_def)
          from h have "view (handle_page m p) = (view ?q)\<lparr>v_phase := ovr ?ph (v_phase (view ?q))\<rparr>"
            using cont by simp
          then show ?thesis unfolding conjunct1 [OF h] vp e by (simp add: act_def no_eff_def ovr_def)
        next
          case False
          note h = hl_miss [OF NodeId ns False]
          have e: "eff_of (svg p) m = no_eff\<lparr>f_agent := Some a, f_phase := ?ph,
                   f_on := Some False\<rparr>"
            using na \<open>truthy_str (current_agent m)\<close> a NodeId ns False by (simp add: eff_of_def)
          from h have "view (handle_page m p) = (view ?q)\<lparr>v_phase := ovr ?ph (v_phase (view ?q))\<rparr>"
            using cont by simp
          then show ?thesis unfolding conjunct1 [OF h] vp e by (simp add: act_def no_eff_def ovr_def)
        qed
      next
        case Inherited
        note h = hl_inherited [OF Inherited ns]
        have e: "eff_of (svg p) m = no_eff\<lparr>f_agent := Some a, f_on := Some False\<rparr>"
          using na True a Inherited ns by (simp add: eff_of_def)
        from h hp have "view (handle_page m p) = view ?q" by simp
        then show ?thesis unfolding conjunct1 [OF h] vp e by (simp add: act_def no_eff_def ovr_def)
      qed
    qed
  qed
qed

lemma act_no_eff: "act no_eff v = v"
  by (simp add: act_def no_eff_def ovr_def)

lemma svg_fold: "svg (fold handle_page ms p) = svg p"
  by (induction ms arbitrary: p) (simp_all add: svg_handle_page)

lemma view_fold: "view (fold handle_page ms p) = act (effs (svg p) ms) (view p)"
proof (induction ms arbitrary: p)
  case Nil
  show ?case by (simp add: act_no_eff)
next
  case (Cons m ms)
  have "view (fold handle_page (m # ms) p) = view (fold handle_page ms (handle_page m p))"
    by simp
  also have "\<dots> = act (effs (svg p) ms) (act (eff_of (svg p) m) (view p))"
    by (simp only: Cons.IH svg_handle_page view_handle_page)
  also have "\<dots> = act (effs (svg p) (m # ms)) (view p)"
    by (simp add: act_seq)
  finally show ?case .
qed

lemma apply_stream_dom: "apply_stream ms c = c\<lparr>dom := fold handle_page ms (dom c)\<rparr>"
  unfolding apply_stream_def by (induction ms arbitrary: c) (simp_all add: handle_fst)

lemma cost_of_sequence: "cost_of (m\<lparr>sequence := n\<rparr>) = cost_of m"
  by (simp add: cost_of_def)

lemma handle_sequence: "handle (m\<lparr>sequence := n\<rparr>) c = handle m c"
  unfolding handle_def cost_of_sequence by (simp cong: if_cong)

lemma effs_none:
  "f_href (effs N s) = None \<longleftrightarrow> (\<forall>m \<in> set s. f_href (eff_of N m) = None)"
  "f_hidden (effs N s) = None \<longleftrightarrow> (\<forall>m \<in> set s. f_hidden (eff_of N m) = None)"
  "f_agent (effs N s) = None \<longleftrightarrow> (\<forall>m \<in> set s. f_agent (eff_of N m) = None)"
  "f_phase (effs N s) = None \<longleftrightarrow> (\<forall>m \<in> set s. f_phase (eff_of N m) = None)"
  "f_on (effs N s) = None \<longleftrightarrow> (\<forall>m \<in> set s. f_on (eff_of N m) = None)"
  "f_prev (effs N s) = None \<longleftrightarrow> (\<forall>m \<in> set s. f_prev (eff_of N m) = None)"
  by (induction s) (auto simp: seq_eff_def later_def no_eff_def split: option.splits)

lemma effs_off: "f_off (effs N s) = (\<Union>m \<in> set s. f_off (eff_of N m))"
  by (induction s) (auto simp: seq_eff_def no_eff_def)

lemma ovr_absorb: "(b = None \<Longrightarrow> a = None) \<Longrightarrow> ovr b (ovr a x) = ovr b x"
  by (cases b) (simp_all add: ovr_def)

lemma act_absorb:
  assumes "set s1 \<subseteq> set s"
  shows "act (effs N s) (act (effs N s1) v) = act (effs N s) v"
proof -
  have n: "f_href (effs N s) = None \<Longrightarrow> f_href (effs N s1) = None"
    "f_hidden (effs N s) = None \<Longrightarrow> f_hidden (effs N s1) = None"
    "f_agent (effs N s) = None \<Longrightarrow> f_agent (effs N s1) = None"
    "f_phase (effs N s) = None \<Longrightarrow> f_phase (effs N s1) = None"
    "f_on (effs N s) = None \<Longrightarrow> f_on (effs N s1) = None"
    "f_prev (effs N s) = None \<Longrightarrow> f_prev (effs N s1) = None"
    using assms unfolding effs_none by blast+
  have o: "f_off (effs N s1) \<subseteq> f_off (effs N s)"
    using assms unfolding effs_off by blast
  then have r: "x - f_off (effs N s1) - f_off (effs N s) = x - f_off (effs N s)" for x
    by blast
  show ?thesis
    using n(6) by (cases "f_prev (effs N s)") (simp_all add: act_def ovr_absorb n(1-5) r)
qed

lemma fold_handle_page_absorb:
  assumes "set s1 \<subseteq> set s"
  shows "fold handle_page s (fold handle_page s1 p) = fold handle_page s p"
proof (rule view_inj)
  show "view (fold handle_page s (fold handle_page s1 p)) = view (fold handle_page s p)"
    by (simp only: view_fold svg_fold act_absorb [OF assms])
qed

lemma run_append: "run (xs @ ys) c = run ys (run xs c)"
  by (simp add: run_def)

lemma run_messages: "readyState c = OPEN \<Longrightarrow> run (map EvMessage ms) c = apply_stream ms c"
  unfolding run_def apply_stream_def
  by (induction ms arbitrary: c) (simp_all add: handle_conn)

lemma apply_stream_conn:
  "retry (apply_stream ms c) = retry c" "readyState (apply_stream ms c) = readyState c"
  "timers (apply_stream ms c) = timers c" "sockets (apply_stream ms c) = sockets c"
  by (simp_all add: apply_stream_dom)

lemma run_reconnect:
  assumes "readyState c = OPEN" and "retry c < 5" and "timers c = []"
  shows "readyState (run reconnect c) = OPEN" "dom (run reconnect c) = dom c"
    "sockets (run reconnect c) = sockets c + 1" "retry (run reconnect c) = retry c + 1"
    "timers (run reconnect c) = []"
  using assms by (simp_all add: run_def reconnect_def connect_def)

lemma run_resubscribed:
  assumes "readyState c = OPEN" and "retry c < 5" and "timers c = []"
  shows "dom (run (resubscribed evs n k) c) = fold handle_page (take n evs @ drop k evs) (dom c)"
    and "sockets (run (resubscribed evs n k) c) = sockets c + 1"
proof -
  let ?c1 = "apply_stream (take n evs) c"
  have 1: "run (map EvMessage (take n evs)) c = ?c1"
    using assms(1) by (rule run_messages)
  have c1: "readyState ?c1 = OPEN" "retry ?c1 < 5" "timers ?c1 = []"
    using assms by (simp_all add: apply_stream_conn)
  let ?c2 = "run reconnect ?c1"
  have 2: "run (map EvMessage (drop k evs)) ?c2 = apply_stream (drop k evs) ?c2"
    using run_reconnect(1) [OF c1] by (rule run_messages)
  have r: "run (resubscribed evs n k) c = apply_stream (drop k evs) ?c2"
    by (simp only: resubscribed_def run_append 1 2)
  have d: "dom (apply_stream xs x) = fold handle_page xs (dom x)" for xs x
    by (simp add: apply_stream_dom)
  show "dom (run (resubscribed evs n k) c) = fold handle_page (take n evs @ drop k evs) (dom c)"
    unfolding r by (simp only: d run_reconnect(2) [OF c1] fold_append comp_apply)
  have "sockets (apply_stream (drop k evs) ?c2) = sockets ?c1 + 1"
    by (simp only: apply_stream_conn run_reconnect(3) [OF c1])
  then show "sockets (run (resubscribed evs n k) c) = sockets c + 1"
    unfolding r by (simp only: apply_stream_conn)
qed

lemma replay_absorb:
  assumes "k \<le> n"
  shows "fold handle_page (take n evs @ drop k evs) p = fold handle_page evs p"
proof -
  have t: "take n evs = take k evs @ drop k (take n evs)"
    using assms by (metis append_take_drop_id take_take min.absorb1 min.commute)
  have s: "set (drop k (take n evs)) \<subseteq> set (drop k evs)"
    by (metis drop_take set_take_subset)
  have "fold handle_page (take n evs @ drop k evs) p
      = fold handle_page (drop k evs) (fold handle_page (drop k (take n evs)) (fold handle_page (take k evs) p))"
    by (subst t) simp
  also have "\<dots> = fold handle_page (drop k evs) (fold handle_page (take k evs) p)"
    by (rule fold_handle_page_absorb [OF s])
  also have "\<dots> = fold handle_page (take k evs @ drop k evs) p"
    by (simp only: fold_append comp_apply)
  also have "\<dots> = fold handle_page evs p" by (simp only: append_take_drop_id)
  finally show ?thesis .
qed

lemma handle_archive:
  assumes "archive_id m = Some j" and "j \<noteq> 0"
  shows "handle_page m p = p\<lparr>downloadLink_href := Config_apiBase @ ''/logs/download/'' @ show_nat j,
           download_section_hidden := False\<rparr>"
  using assms by (simp add: handle_page_def truthy_nat_def)

lemma handle_agent:
  assumes "\<not> truthy_nat (archive_id m)" and "current_agent m = Some a" and "a \<noteq> []"
  shows "currentAgent (handle_page m p) = a"
proof -
  have "currentAgent (fst (highlight a q)) = currentAgent q" for q
    by (simp add: highlight_def Let_def split: node_ref.splits option.splits)
  then have "currentAgent (fst (highlight a (p\<lparr>currentAgent := a\<rparr>))) = a" by simp
  with assms show ?thesis
    by (cases "highlight a (p\<lparr>currentAgent := a\<rparr>)")
       (auto simp: handle_page_def truthy_str_def split: option.splits)
qed

lemma handle_node:
  assumes "\<not> truthy_nat (archive_id m)" and "current_agent m = Some a"
    and "AGENT_NODE_MAP_get a = NodeId i" and "svg p = Some nodes" and "i \<in> set nodes"
  shows "prevAgentNode (handle_page m p) = Some i \<and> i \<in> activeAgent (handle_page m p)"
proof -
  from assms(3) have a: "a \<noteq> []"
    by (auto simp: AGENT_NODE_MAP_get_def AGENT_NODE_MAP_def Object_prototype_keys_def)
  obtain p1 where h: "highlight a (p\<lparr>currentAgent := a\<rparr>) = (p1, None)"
    and p1: "prevAgentNode p1 = Some i" "i \<in> activeAgent p1"
    using assms(3-5) by (simp add: highlight_def Let_def split: option.splits)
  show ?thesis
    using assms(1,2) a p1 by (simp add: handle_page_def h truthy_str_def split: option.splits)
qed

lemma handle_phase:
  assumes "\<not> truthy_nat (archive_id m)" and "step_name m = Some s" and "s \<noteq> []"
    and "\<forall>b. current_agent m = Some b \<longrightarrow> AGENT_NODE_MAP_get b \<noteq> Inherited"
  shows "currentPhase (handle_page m p) = s"
proof (cases "truthy_str (current_agent m)")
  case False
  with assms show ?thesis by (simp add: handle_page_def truthy_str_def)
next
  case True
  then obtain b where b: "current_agent m = Some b" "b \<noteq> []" by (auto dest: truthy_strD)
  with assms(4) have ni: "AGENT_NODE_MAP_get b \<noteq> Inherited" by simp
  have "snd (highlight b q) = None" for q
    using ni by (simp add: highlight_def Let_def split: node_ref.splits option.splits)
  then obtain p1 where "highlight b (p\<lparr>currentAgent := b\<rparr>) = (p1, None)"
    by (metis prod.collapse)
  with assms(1-3) b show ?thesis by (simp add: handle_page_def truthy_str_def)
qed

lemma client1_eq:
  "client1 = \<lparr>dom = drawn_page, chart = None, retry = 0, readyState = OPEN, timers = [],
     sockets = 1\<rparr>"
  by (simp add: client1_def WSClient_new_def connect_def)

lemma client0_eq:
  "client0 = \<lparr>dom = buildMain_page, chart = None, retry = 0, readyState = OPEN, timers = [],
     sockets = 1\<rparr>"
  by (simp add: client0_def WSClient_new_def connect_def)

text \<open>
  Claim C1, as amended. The client never reads the sequence number of an event: events
  that differ in it alone are handled alike. Every event that an open socket delivers is
  handled, once for each time it is delivered and in the order of delivery, also after a
  reconnection, so an event that is received again is applied again like any other. To
  apply an event is to overwrite: an event with an archive id sets the download link and
  shows the download section; any other event sets the current agent, makes the node of
  that agent the highlighted one when the diagram has it, and sets the current phase
  (unless the name of the agent is a property that every object inherits: then the
  highlight throws before the phase is written). What stands in for deduplication is
  this overwriting: when the events applied before are all events of the stream, as
  after a reconnection that is sent the stream again from any position not after the
  first missed event, or when the delivered stream is applied twice, these fields of
  the page end as applying the stream once leaves them. The step log and the cost chart
  are not fields of the page, and nothing is said of them here.
\<close>

theorem reapplied_events_overwrite:
  "handle (m\<lparr>sequence := sq\<rparr>) c = handle m c
   \<and> (readyState c = OPEN \<longrightarrow> run (map EvMessage ms) c = apply_stream ms c)
   \<and> (archive_id m = Some j \<and> j \<noteq> 0 \<longrightarrow>
        \<not> download_section_hidden (dom (fst (handle m c)))
        \<and> downloadLink_href (dom (fst (handle m c)))
            = Config_apiBase @ ''/logs/download/'' @ show_nat j)
   \<and> (\<not> truthy_nat (archive_id m) \<and> current_agent m = Some a \<and> a \<noteq> [] \<longrightarrow>
        currentAgent (dom (fst (handle m c))) = a)
   \<and> (\<not> truthy_nat (archive_id m) \<and> current_agent m = Some a
        \<and> AGENT_NODE_MAP_get a = NodeId i \<and> svg (dom c) = Some nodes \<and> i \<in> set nodes \<longrightarrow>
        prevAgentNode (dom (fst (handle m c))) = Some i
        \<and> i \<in> activeAgent (dom (fst (handle m c))))
   \<and> (\<not> truthy_nat (archive_id m) \<and> step_name m = Some s \<and> s \<noteq> []
        \<and> (\<forall>b. current_agent m = Some b \<longrightarrow> AGENT_NODE_MAP_get b \<noteq> Inherited) \<longrightarrow>
        currentPhase (dom (fst (handle m c))) = s)
   \<and> (readyState c = OPEN \<and> retry c < 5 \<and> timers c = [] \<longrightarrow>
        dom (run (resubscribed evs n k) c) = dom (apply_stream (take n evs @ drop k evs) c)
        \<and> sockets (run (resubscribed evs n k) c) = sockets c + 1
        \<and> (k \<le> n \<longrightarrow> dom (run (resubscribed evs n k) c) = dom (apply_stream evs c)))
   \<and> (set seen \<subseteq> set ms \<longrightarrow>
        dom (apply_stream ms (apply_stream seen c)) = dom (apply_stream ms c))"
proof -
  have d: "dom (fst (handle m c)) = handle_page m (dom c)"
    by (simp add: handle_fst)
  have e: "dom (apply_stream xs x) = fold handle_page xs (dom x)" for xs x
    by (simp add: apply_stream_dom)
  have 1: "handle (m\<lparr>sequence := sq\<rparr>) c = handle m c"
    by (rule handle_sequence)
  have 2: "run (map EvMessage ms) c = apply_stream ms c" if "readyState c = OPEN"
    using that by (rule run_messages)
  have 3: "\<not> download_section_hidden (dom (fst (handle m c)))
        \<and> downloadLink_href (dom (fst (handle m c)))
            = Config_apiBase @ ''/logs/download/'' @ show_nat j"
    if "archive_id m = Some j" "j \<noteq> 0"
    unfolding d by (simp add: handle_archive [OF that])
  have 4: "currentAgent (dom (fst (handle m c))) = a"
    if "\<not> truthy_nat (archive_id m)" "current_agent m = Some a" "a \<noteq> []"
    unfolding d using that by (rule handle_agent)
  have 5: "prevAgentNode (dom (fst (handle m c))) = Some i
        \<and> i \<in> activeAgent (dom (fst (handle m c)))"
    if "\<not> truthy_nat (archive_id m)" "current_agent m = Some a"
      "AGENT_NODE_MAP_get a = NodeId i" "svg (dom c) = Some nodes" "i \<in> set nodes"
    unfolding d using that by (rule handle_node)
  have 6: "currentPhase (dom (fst (handle m c))) = s"
    if "\<not> truthy_nat (archive_id m)" "step_name m = Some s" "s \<noteq> []"
      "\<forall>b. current_agent m = Some b \<longrightarrow> AGENT_NODE_MAP_get b \<noteq> Inherited"
    unfolding d using that by (rule handle_phase)
  have 7: "dom (run (resubscribed evs n k) c) = dom (apply_stream (take n evs @ drop k evs) c)
        \<and> sockets (run (resubscribed evs n k) c) = sockets c + 1
        \<and> (k \<le> n \<longrightarrow> dom (run (resubscribed evs n k) c) = dom (apply_stream evs c))"
    if "readyState c = OPEN" "retry c < 5" "timers c = []"
  proof -
    have x: "dom (run (resubscribed evs n k) c)
        = fold handle_page (take n evs @ drop k evs) (dom c)"
      by (rule run_resubscribed(1) [OF that])
    have y: "sockets (run (resubscribed evs n k) c) = sockets c + 1"
      by (rule run_resubscribed(2) [OF that])
    have z: "fold handle_page (take n evs @ drop k evs) (dom c) = fold handle_page evs (dom c)"
      if "k \<le> n" using that by (rule replay_absorb)
    show ?thesis unfolding e using x y z by simp
  qed
  have 8: "dom (apply_stream ms (apply_stream seen c)) = dom (apply_stream ms c)"
    if "set seen \<subseteq> set ms"
    unfolding e by (rule fold_handle_page_absorb [OF that])
  from 1 2 3 4 5 6 7 8 show ?thesis by blast
qed

theorem reapplied_events_overwrite_witness:
  "readyState client1 = OPEN \<and> retry client1 < 5 \<and> timers client1 = [] \<and> (0::nat) \<le> 2
   \<and> dom (run (resubscribed [qa_event, security_event, archive_event] 2 0) client1)
       = dom (apply_stream [qa_event, security_event, archive_event] client1)
   \<and> sockets (run (resubscribed [qa_event, security_event, archive_event] 2 0) client1) = 2
   \<and> currentAgent (dom (apply_stream [qa_event, security_event, archive_event] client1))
       = ''Security''
   \<and> currentPhase (dom (apply_stream [qa_event, security_event, archive_event] client1))
       = ''Security''
   \<and> prevAgentNode (dom (apply_stream [qa_event, security_event, archive_event] client1))
       = Some ''SEC''
   \<and> activeAgent (dom (apply_stream [qa_event, security_event, archive_event] client1))
       = {''SEC''}
   \<and> \<not> download_section_hidden
         (dom (apply_stream [qa_event, security_event, archive_event] client1))"
proof -
  have h: "readyState client1 = OPEN" "retry client1 < 5" "timers client1 = []"
    by (simp_all add: client1_eq)
  have s: "sockets client1 = 1" by (simp add: client1_eq)
  have z: "(0::nat) \<le> 2" by simp
  note t = reapplied_events_overwrite [where c = client1 and n = 2 and k = 0
      and evs = "[qa_event, security_event, archive_event]" and m = qa_event and sq = None
      and ms = "[]" and seen = "[]" and j = 0 and a = "[]" and i = "[]" and nodes = "[]"
      and s = "[]"]
  from t h z
  have r1: "dom (run (resubscribed [qa_event, security_event, archive_event] 2 0) client1)
       = dom (apply_stream [qa_event, security_event, archive_event] client1)"
    by blast
  from t h
  have "sockets (run (resubscribed [qa_event, security_event, archive_event] 2 0) client1)
       = sockets client1 + 1"
    by blast
  with s
  have r2: "sockets (run (resubscribed [qa_event, security_event, archive_event] 2 0) client1) = 2"
    by simp
  have p: "dom (apply_stream [qa_event, security_event, archive_event] client1)
      = drawn_page\<lparr>downloadLink_href := Config_apiBase @ ''/logs/download/'' @ show_nat 12,
          download_section_hidden := False, currentAgent := ''Security'',
          currentPhase := ''Security'', activeAgent := {''SEC''}, prevAgentNode := Some ''SEC''\<rparr>"
    by (simp add: apply_stream_dom client1_eq handle_page_def qa_event_def security_event_def
        archive_event_def truthy_nat_def truthy_str_def highlight_def AGENT_NODE_MAP_get_def
        AGENT_NODE_MAP_def drawn_page_def buildMain_page_def)
  from h z r1 r2 show ?thesis unfolding p by simp
qed

text \<open>
  Claim C1 as stated fails: the client has applied the events 1 and 2 and shows the phase
  of event 2; its socket is lost, it reconnects, and event 1 is delivered again. The
  client does not discard it: the page shows the agent and the phase of event 1 again.
\<close>

theorem resent_event_applied_again:
  "sequence qa_event = Some 1 \<and> sequence security_event = Some 2
   \<and> currentAgent (dom (run [EvMessage qa_event, EvMessage security_event] client0))
       = ''Security''
   \<and> currentPhase (dom (run [EvMessage qa_event, EvMessage security_event] client0))
       = ''Security''
   \<and> sockets (run ([EvMessage qa_event, EvMessage security_event] @ reconnect) client0) = 2
   \<and> currentAgent (dom (run ([EvMessage qa_event, EvMessage security_event] @ reconnect
          @ [EvMessage qa_event]) client0)) = ''QA''
   \<and> currentPhase (dom (run ([EvMessage qa_event, EvMessage security_event] @ reconnect
          @ [EvMessage qa_event]) client0)) = ''QA''"
  by (simp add: run_def reconnect_def client0_eq handle_fst handle_page_def qa_event_def
      security_event_def truthy_nat_def truthy_str_def connect_def highlight_def
      AGENT_NODE_MAP_get_def AGENT_NODE_MAP_def buildMain_page_def)

subsection \<open>The cost chart\<close>

text \<open>
  Claim C5, on the code. An event that reports a cost and has no step name reaches the
  call \<open>this.chart.push\<close>, which throws inside the \<open>try\<close> block, since a \<open>CostChart\<close> has
  no method \<open>push\<close>: the client is unchanged. An event that reports a cost and has a step
  name leaves \<open>_handle\<close> with the \<open>TypeError\<close> of \<open>UI.appendUL\<close> before the cost is read.
  In both cases the chart gets no point; the method \<open>add\<close> would have appended it.
\<close>

theorem cost_event_not_charted:
  "cost_of cost_event = Some (1/2)
   \<and> handle cost_event (WSClient_new (Some empty_chart) buildMain_page)
       = (WSClient_new (Some empty_chart) buildMain_page, None)
   \<and> cost_of qa_event = Some (1/2)
   \<and> chart (fst (handle qa_event (WSClient_new (Some empty_chart) buildMain_page))) = Some empty_chart
   \<and> snd (handle qa_event (WSClient_new (Some empty_chart) buildMain_page)) = Some TypeError
   \<and> chart_call_method ''add'' (Some empty_chart) (step_name qa_event) (1/2)
       = Inr \<lparr>labels = [Some ''QA''], data = [1/2]\<rparr>"
  by (simp add: handle_def cost_of_def cost_event_def qa_event_def truthy_nat_def truthy_str_def
      truthy_num_def chart_push UI_call_appendUL WSClient_new_def connect_def empty_chart_def
      highlight_def AGENT_NODE_MAP_get_def AGENT_NODE_MAP_def buildMain_page_def
      chart_call_method_def add_def)

section \<open>Properties of the history table\<close>











section \<open>Properties of the orchestration core\<close>

lemma terminal_advance: "terminal (wf_status w) \<Longrightarrow> advance e w = w"
  by (simp add: advance_def)

lemma terminal_orchestrate: "terminal (wf_status w) \<Longrightarrow> orchestrate es w = w"
  unfolding orchestrate_def by (induction es) (simp_all add: terminal_advance)

lemma advance_cases [case_names terminal budget error cancelled moved]:
  obtains "terminal (wf_status w)" and "advance e w = w"
  | "\<not> terminal (wf_status w)" and "\<not> reserve w (estimate e)"
      and "advance e w = w\<lparr>wf_status := Failed BudgetExceeded\<rparr>"
  | k where "\<not> terminal (wf_status w)"
      and "advance e w = w\<lparr>wf_status := Failed (AgentFailed k),
             steps := steps w @ [(wf_phase w, AgentErr k)]\<rparr>"
  | c passed where "\<not> terminal (wf_status w)"
      and "advance e w = w\<lparr>wf_status := Cancelled,
             steps := steps w @ [(wf_phase w, AgentOk c passed)], ledger := ledger w @ [c]\<rparr>"
  | c passed where "\<not> terminal (wf_status w)"
      and "advance e w = next_phase (wf_phase w) passed
             (w\<lparr>wf_status := Running, steps := steps w @ [(wf_phase w, AgentOk c passed)],
                ledger := ledger w @ [c]\<rparr>)"
proof (cases "terminal (wf_status w)")
  case True
  then show ?thesis using that(1) by (simp add: terminal_advance)
next
  case nt: False
  show ?thesis
  proof (cases "reserve w (estimate e)")
    case False
    with nt show ?thesis using that(2) by (simp add: advance_def)
  next
    case rs: True
    show ?thesis
    proof (cases "result e")
      case (AgentErr k)
      with nt rs show ?thesis using that(3) [of k] by (simp add: advance_def)
    next
      case (AgentOk c passed)
      show ?thesis
      proof (cases "cancel e")
        case True
        with nt rs AgentOk show ?thesis using that(4) [of c passed] by (simp add: advance_def)
      next
        case False
        with nt rs AgentOk show ?thesis using that(5) [of passed c] by (simp add: advance_def)
      qed
    qed
  qed
qed

lemma next_phase_steps: "steps (next_phase ph b w) = steps w"
  by (cases ph) (simp_all add: gate_failed_def)

lemma next_phase_max_loops: "wf_max_loops (next_phase ph b w) = wf_max_loops w"
  by (cases ph) (simp_all add: gate_failed_def)

lemma advance_max_loops: "wf_max_loops (advance e w) = wf_max_loops w"
  by (cases e w rule: advance_cases) (simp_all add: next_phase_max_loops)

lemma orchestrate_max_loops: "wf_max_loops (orchestrate es w) = wf_max_loops w"
  unfolding orchestrate_def by (induction es arbitrary: w) (simp_all add: advance_max_loops)

lemma loop_bound_advance:
  assumes "loop_count w \<le> wf_max_loops w"
  shows "loop_count (advance e w) \<le> wf_max_loops w"
proof (cases e w rule: advance_cases)
  case (moved c passed)
  with assms show ?thesis by (cases "wf_phase w") (simp_all add: gate_failed_def)
qed (use assms in simp_all)

lemma patch_bound_advance:
  assumes "invocations Patch w + pend_patch w \<le> loop_count w"
  shows "invocations Patch (advance e w) + pend_patch (advance e w) \<le> loop_count (advance e w)"
proof (cases e w rule: advance_cases)
  case (moved c passed)
  with assms show ?thesis
    by (cases "wf_phase w")
       (simp_all add: gate_failed_def invocations_def pend_patch_def terminal_def)
qed (use assms in \<open>auto simp: invocations_def pend_patch_def terminal_def split: if_splits\<close>)

lemma codegen_bound_advance:
  assumes "invocations CodeGeneration w + pend_codegen w \<le> loop_count w + 1"
  shows "invocations CodeGeneration (advance e w) + pend_codegen (advance e w)
         \<le> loop_count (advance e w) + 1"
proof (cases e w rule: advance_cases)
  case (moved c passed)
  with assms show ?thesis
    by (cases "wf_phase w")
       (simp_all add: gate_failed_def invocations_def pend_codegen_def terminal_def)
qed (use assms in \<open>auto simp: invocations_def pend_codegen_def terminal_def split: if_splits\<close>)

lemma gate_inv_advance:
  assumes "gate_inv w" and "loop_count w \<le> wf_max_loops w"
  shows "gate_inv (advance e w)"
proof (cases e w rule: advance_cases)
  case terminal
  with assms show ?thesis by simp
next
  case budget
  with assms show ?thesis by (auto simp: gate_inv_def gate_failures_def terminal_def)
next
  case (error k)
  with assms show ?thesis by (auto simp: gate_inv_def gate_failures_def terminal_def)
next
  case (cancelled c passed)
  with assms show ?thesis by (auto simp: gate_inv_def gate_failures_def terminal_def)
next
  case (moved c passed)
  from moved(1) assms(1) have g: "gate_failures w = loop_count w"
    by (auto simp: gate_inv_def terminal_def)
  show ?thesis
  proof (cases "wf_phase w")
    case QA
    with moved g assms(2) show ?thesis
      by (cases passed) (simp_all add: gate_inv_def gate_failures_def gate_failed_def)
  next
    case Security
    with moved g assms(2) show ?thesis
      by (cases passed) (simp_all add: gate_inv_def gate_failures_def gate_failed_def)
  qed (use moved g in \<open>simp_all add: gate_inv_def gate_failures_def\<close>)
qed

lemma loop_inv_new: "loop_inv (new_workflow i req)"
  by (simp add: loop_inv_def gate_inv_def new_workflow_def invocations_def gate_failures_def
      pend_patch_def pend_codegen_def terminal_def)

lemma loop_inv_advance: "loop_inv w \<Longrightarrow> loop_inv (advance e w)"
  unfolding loop_inv_def
  using loop_bound_advance [of w e] patch_bound_advance [of w e] codegen_bound_advance [of w e]
    gate_inv_advance [of w e] advance_max_loops [of e w]
  by simp

lemma loop_inv_orchestrate: "loop_inv w \<Longrightarrow> loop_inv (orchestrate es w)"
  unfolding orchestrate_def by (induction es arbitrary: w) (simp_all add: loop_inv_advance)

lemma gate_failed_exhausted:
  assumes "\<not> terminal (wf_status w)" and "wf_phase w = QA \<or> wf_phase w = Security"
    and "loop_count w = wf_max_loops w" and "reserve w (estimate e)"
    and "result e = AgentOk c False" and "\<not> cancel e"
  shows "advance e w = w\<lparr>wf_status := Failed RetryBudgetExhausted,
           steps := steps w @ [(wf_phase w, AgentOk c False)], ledger := ledger w @ [c]\<rparr>"
  using assms by (auto simp: advance_def gate_failed_def)

lemmas scenario_defs = orchestrate_def new_workflow_def scenario_request_def passing_step_def
  failing_step_def advance_def terminal_def reserve_def current_total_def gate_failed_def
  gate_failures_def invocations_def Let_def

text \<open>
  Claim C2, as amended. In every run of a submitted workflow the loop counter stays
  within \<open>max_loops\<close>, the patch agent is invoked at most \<open>max_loops\<close> times and the
  code generation agent at most \<open>max_loops + 1\<close> times. A workflow that has failed with
  \<open>RetryBudgetExhausted\<close> has seen \<open>max_loops + 1\<close> gate failures, the last one with the
  loop counter at \<open>max_loops\<close>; a workflow whose gate has failed \<open>max_loops\<close> times or
  fewer has not failed with that reason. When a gate fails with the loop counter at
  \<open>max_loops\<close>, the workflow fails with \<open>RetryBudgetExhausted\<close> and code generation is
  not invoked again.
\<close>

theorem retry_budget_exhausted_after_max_loops_retries:
  assumes "w = orchestrate es (new_workflow i req)"
  shows "loop_count w \<le> wf_max_loops w
    \<and> invocations Patch w \<le> wf_max_loops w
    \<and> invocations CodeGeneration w \<le> wf_max_loops w + 1
    \<and> (wf_status w = Failed RetryBudgetExhausted \<longrightarrow>
         gate_failures w = wf_max_loops w + 1 \<and> loop_count w = wf_max_loops w)
    \<and> (gate_failures w \<le> wf_max_loops w \<longrightarrow> wf_status w \<noteq> Failed RetryBudgetExhausted)
    \<and> (\<not> terminal (wf_status w) \<and> (wf_phase w = QA \<or> wf_phase w = Security)
         \<and> loop_count w = wf_max_loops w \<and> reserve w (estimate e)
         \<and> result e = AgentOk c False \<and> \<not> cancel e \<longrightarrow>
         wf_status (advance e w) = Failed RetryBudgetExhausted
         \<and> orchestrate es' (advance e w) = advance e w
         \<and> invocations CodeGeneration (orchestrate es' (advance e w)) = invocations CodeGeneration w)"
proof -
  have inv: "loop_inv w" unfolding assms by (rule loop_inv_orchestrate [OF loop_inv_new])
  then have a: "loop_count w \<le> wf_max_loops w" by (simp add: loop_inv_def)
  from inv have "invocations Patch w \<le> loop_count w"
    "invocations CodeGeneration w \<le> loop_count w + 1"
    by (simp_all add: loop_inv_def)
  with a have b: "invocations Patch w \<le> wf_max_loops w"
    "invocations CodeGeneration w \<le> wf_max_loops w + 1" by simp_all
  from inv have g: "gate_inv w" by (simp add: loop_inv_def)
  then have c: "gate_failures w = wf_max_loops w + 1 \<and> loop_count w = wf_max_loops w"
    if "wf_status w = Failed RetryBudgetExhausted"
    using that by (simp add: gate_inv_def)
  then have d: "wf_status w \<noteq> Failed RetryBudgetExhausted" if "gate_failures w \<le> wf_max_loops w"
    using that by auto
  have e: "wf_status (advance e w) = Failed RetryBudgetExhausted
         \<and> orchestrate es' (advance e w) = advance e w
         \<and> invocations CodeGeneration (orchestrate es' (advance e w)) = invocations CodeGeneration w"
    if h: "\<not> terminal (wf_status w)" "wf_phase w = QA \<or> wf_phase w = Security"
      "loop_count w = wf_max_loops w" "reserve w (estimate e)"
      "result e = AgentOk c False" "\<not> cancel e"
  proof -
    note eq = gate_failed_exhausted [OF h]
    then have st: "wf_status (advance e w) = Failed RetryBudgetExhausted" by simp
    then have "terminal (wf_status (advance e w))" by (simp add: terminal_def)
    then have fin: "orchestrate es' (advance e w) = advance e w" by (rule terminal_orchestrate)
    have "invocations CodeGeneration (advance e w) = invocations CodeGeneration w"
      using h(2) unfolding eq by (auto simp: invocations_def)
    with st fin show ?thesis by simp
  qed
  from a b c d e show ?thesis by blast
qed

lemma run_fails_every_time:
  "orchestrate fails_every_time (new_workflow 7 scenario_request)
   = \<lparr>wf_id = 7, wf_project_name = ''todo'', wf_requirement = ''build a todo app'',
       wf_model = None, wf_budget_cap = Some 5, wf_max_loops = 2, wf_phase = QA,
       wf_status = Failed RetryBudgetExhausted, loop_count = 2,
       ledger = [1/10, 1/10, 1/10, 1/10, 1/10, 1/10, 1/10, 1/10, 1/10, 1/10, 1/10, 1/10],
       steps = [(Intake, AgentOk (1/10) True), (StakeholderRefine, AgentOk (1/10) True),
         (DbDesign, AgentOk (1/10) True), (UiGeneration, AgentOk (1/10) True),
         (CodeGeneration, AgentOk (1/10) True), (QA, AgentOk (1/10) False),
         (Patch, AgentOk (1/10) True), (CodeGeneration, AgentOk (1/10) True),
         (QA, AgentOk (1/10) False), (Patch, AgentOk (1/10) True),
         (CodeGeneration, AgentOk (1/10) True), (QA, AgentOk (1/10) False)]\<rparr>"
  by (simp add: scenario_defs fails_every_time_def)

theorem retry_budget_exhausted_after_max_loops_retries_witness:
  "wf_status (orchestrate fails_every_time (new_workflow 7 scenario_request))
     = Failed RetryBudgetExhausted
   \<and> wf_max_loops (orchestrate fails_every_time (new_workflow 7 scenario_request)) = 2
   \<and> gate_failures (orchestrate fails_every_time (new_workflow 7 scenario_request)) = 3
   \<and> invocations Patch (orchestrate fails_every_time (new_workflow 7 scenario_request)) = 2
   \<and> invocations CodeGeneration (orchestrate fails_every_time (new_workflow 7 scenario_request)) = 3"
  using retry_budget_exhausted_after_max_loops_retries [OF refl, of fails_every_time 7 scenario_request
      failing_step 0 "[]"]
  by (simp add: run_fails_every_time invocations_def gate_failures_def)

text \<open>
  Claim C2 as stated fails on the specification's own scenario: with \<open>max_loops = 2\<close>
  the gate fails exactly twice and then passes, and the workflow succeeds after two
  patch cycles.
\<close>

theorem two_failures_then_success:
  "wf_max_loops (orchestrate fails_twice_then_passes (new_workflow 7 scenario_request)) = 2
   \<and> gate_failures (orchestrate fails_twice_then_passes (new_workflow 7 scenario_request)) = 2
   \<and> invocations Patch (orchestrate fails_twice_then_passes (new_workflow 7 scenario_request)) = 2
   \<and> wf_status (orchestrate fails_twice_then_passes (new_workflow 7 scenario_request)) = Succeeded"
  by (simp add: scenario_defs fails_twice_then_passes_def)

text \<open>
  Claim C3. When the estimated cost of the next step would push the current total above
  the budget cap, the step fails the workflow with \<open>BudgetExceeded\<close>, which is neither
  the reason of exhausted retries nor that of an agent error: no agent is invoked (no step is persisted and nothing is committed to the ledger), and whatever
  comes next leaves the workflow as it is, so nothing is retried.
\<close>

theorem budget_exceeded_without_invoking:
  assumes "\<not> terminal (wf_status w)" and "wf_budget_cap w = Some cap"
    and "current_total w + estimate e > cap"
  shows "advance e w = w\<lparr>wf_status := Failed BudgetExceeded\<rparr>
    \<and> wf_status (advance e w) \<noteq> Failed RetryBudgetExhausted
    \<and> wf_status (advance e w) \<noteq> Failed (AgentFailed k)
    \<and> steps (advance e w) = steps w
    \<and> ledger (advance e w) = ledger w
    \<and> orchestrate es (advance e w) = advance e w"
proof -
  from assms have eq: "advance e w = w\<lparr>wf_status := Failed BudgetExceeded\<rparr>"
    by (simp add: advance_def reserve_def)
  then have "terminal (wf_status (advance e w))" by (simp add: terminal_def)
  then have "orchestrate es (advance e w) = advance e w" by (rule terminal_orchestrate)
  with eq show ?thesis by simp
qed

lemma after_intake:
  "advance free_step (new_workflow 7 small_budget_request)
   = \<lparr>wf_id = 7, wf_project_name = ''todo'', wf_requirement = ''build a todo app'',
       wf_model = None, wf_budget_cap = Some (1/100), wf_max_loops = 2,
       wf_phase = StakeholderRefine, wf_status = Running, loop_count = 0, ledger = [0],
       steps = [(Intake, AgentOk 0 True)]\<rparr>"
  by (simp add: new_workflow_def small_budget_request_def free_step_def advance_def terminal_def
      reserve_def current_total_def)

theorem budget_exceeded_without_invoking_witness:
  "wf_status (advance passing_step (advance free_step (new_workflow 7 small_budget_request)))
     = Failed BudgetExceeded
   \<and> steps (advance passing_step (advance free_step (new_workflow 7 small_budget_request)))
     = [(Intake, AgentOk 0 True)]
   \<and> orchestrate [passing_step, passing_step]
        (advance passing_step (advance free_step (new_workflow 7 small_budget_request)))
     = advance passing_step (advance free_step (new_workflow 7 small_budget_request))"
proof -
  let ?w = "advance free_step (new_workflow 7 small_budget_request)"
  have h1: "\<not> terminal (wf_status ?w)" by (simp add: after_intake terminal_def)
  have h2: "wf_budget_cap ?w = Some (1/100)" by (simp add: after_intake)
  have h3: "current_total ?w + estimate passing_step > 1/100"
    by (simp add: after_intake current_total_def passing_step_def)
  note r = budget_exceeded_without_invoking [OF h1 h2 h3, of Timeout "[passing_step, passing_step]"]
  from r have eq: "advance passing_step ?w = ?w\<lparr>wf_status := Failed BudgetExceeded\<rparr>"
    by (rule conjunct1)
  from r have fin: "orchestrate [passing_step, passing_step] (advance passing_step ?w)
      = advance passing_step ?w" by blast
  have "wf_status (advance passing_step ?w) = Failed BudgetExceeded"
    "steps (advance passing_step ?w) = [(Intake, AgentOk 0 True)]"
    unfolding eq by (simp_all add: after_intake)
  with fin show ?thesis by simp
qed

section \<open>Properties of submit\<close>

lemma ids_below_submit: "ids_below s \<Longrightarrow> ids_below (snd (submit_workflow r s))"
  by (auto simp: ids_below_def submit_workflow_def new_workflow_def list_all_iff)

lemma ids_below_submit_all: "ids_below s \<Longrightarrow> ids_below (submit_all reqs s)"
  unfolding submit_all_def by (induction reqs arbitrary: s) (simp_all add: ids_below_submit)

lemma find_fresh: "ids_below s \<Longrightarrow> find_workflow s (next_id s) = None"
  by (auto simp: ids_below_def find_workflow_def find_None_iff list_all_iff)

lemma find_append_fresh:
  "find P xs = None \<Longrightarrow> P x \<Longrightarrow> find P (xs @ [x]) = Some x"
  by (induction xs) (auto split: if_splits)

text \<open>
  Claim C6. On every server that submit requests have produced, a submit request is
  answered with a \<open>workflow_id\<close> that no earlier workflow has and that identifies the
  workflow created from the request; \<open>max_loops\<close> of the created workflow is the
  request's, and 3 when the request gives none. The client's start button sends the
  project name and the requirement only, gets the response back from
  \<open>API.startWorkflow\<close>, and so starts workflows with \<open>max_loops = 3\<close>.
\<close>

theorem submit_returns_workflow_id:
  assumes "s = submit_all reqs empty_server"
  shows "find_workflow s (workflow_id (fst (submit_workflow req s))) = None
    \<and> find_workflow (snd (submit_workflow req s)) (workflow_id (fst (submit_workflow req s)))
        = Some (new_workflow (workflow_id (fst (submit_workflow req s))) req)
    \<and> wf_max_loops (new_workflow i req) = (case max_loops req of None \<Rightarrow> 3 | Some n \<Rightarrow> n)
    \<and> startWorkflow (start_payload p r) s
        = (Inr (fst (submit_workflow (start_payload p r) s)),
           snd (submit_workflow (start_payload p r) s))
    \<and> wf_max_loops (new_workflow i (start_payload p r)) = 3"
proof -
  have "ids_below empty_server" by (simp add: ids_below_def empty_server_def)
  then have "ids_below s" unfolding assms by (rule ids_below_submit_all)
  then have fresh: "find_workflow s (next_id s) = None" by (rule find_fresh)
  then have "find (\<lambda>w. wf_id w = next_id s) (workflows s @ [new_workflow (next_id s) req])
      = Some (new_workflow (next_id s) req)"
    unfolding find_workflow_def by (rule find_append_fresh) (simp add: new_workflow_def)
  with fresh show ?thesis
    by (simp add: submit_workflow_def find_workflow_def new_workflow_def startWorkflow_def
        post_workflow_def json_of_def start_payload_def)
qed

theorem submit_returns_workflow_id_witness:
  "workflow_id (fst (submit_workflow scenario_request (submit_all [small_budget_request] empty_server))) = 2
   \<and> find_workflow (submit_all [small_budget_request] empty_server) 2 = None
   \<and> find_workflow (snd (submit_workflow scenario_request (submit_all [small_budget_request] empty_server))) 2
       = Some (new_workflow 2 scenario_request)
   \<and> wf_max_loops (new_workflow 2 (start_payload (Some '' todo '') (Some ''build a todo app''))) = 3
   \<and> project_name (start_payload (Some '' todo '') (Some ''build a todo app'')) = ''todo''"
  using submit_returns_workflow_id [OF refl, of "[small_budget_request]" scenario_request 2
      "Some '' todo ''" "Some ''build a todo app''"]
  by (simp add: submit_all_def submit_workflow_def empty_server_def new_workflow_def
      start_payload_def trim_def is_space_def find_workflow_def scenario_request_def
      small_budget_request_def)


end
